theory Spec2Isabelle
  imports Main "HOL-Library.AList"
begin

text \<open>
  The manual tile distribution of the tiles-web GUI: \<open>FactoryDropHandler\<close> (the drop
  zones on the factories), \<open>BagView\<close> (the supply shown to the operator) and the
  methods of \<open>GuiGame\<close> that enter a distribution phase and apply it to the rules
  engine. DOM rendering is left out; what a DOM event carries into a handler is an
  argument of the function that models the handler.
\<close>

section \<open>JavaScript values and built-ins used by the distribution code\<close>

text \<open>
  Tile colours, factory ids and counters are JavaScript numbers that only ever hold
  integers in this code; they are modelled as \<open>int\<close>. The entries of the
  \<open>tileCounts\<close> object can in addition become \<open>NaN\<close> (\<open>undefined++\<close> on a missing
  key), so they are modelled by \<open>jsnum\<close>. A read of a missing key gives \<open>undefined\<close>,
  modelled by \<open>None\<close>.
\<close>

datatype jsnum = Num int | NaN

fun jsadd :: "jsnum \<Rightarrow> jsnum \<Rightarrow> jsnum" where
  "jsadd (Num a) (Num b) = Num (a + b)"
| "jsadd _ _ = NaN"

fun jssub :: "jsnum \<Rightarrow> jsnum \<Rightarrow> jsnum" where
  "jssub (Num a) (Num b) = Num (a - b)"
| "jssub _ _ = NaN"

text \<open>\<open>Math.min\<close>: \<open>NaN\<close> as soon as one argument is \<open>NaN\<close>.\<close>

fun jsmin :: "jsnum \<Rightarrow> jsnum \<Rightarrow> jsnum" where
  "jsmin (Num a) (Num b) = Num (min a b)"
| "jsmin _ _ = NaN"

text \<open>\<open>x > 0\<close> and \<open>x <= 0\<close> on a property read: false on \<open>undefined\<close> and on \<open>NaN\<close>.\<close>

fun jsgt0 :: "jsnum option \<Rightarrow> bool" where
  "jsgt0 (Some (Num n)) = (n > 0)"
| "jsgt0 _ = False"

fun jsle0 :: "jsnum option \<Rightarrow> bool" where
  "jsle0 (Some (Num n)) = (n \<le> 0)"
| "jsle0 _ = False"

text \<open>The value stored by \<open>x++\<close> and by \<open>x--\<close> on a property read.\<close>

fun jsinc :: "jsnum option \<Rightarrow> jsnum" where
  "jsinc (Some (Num n)) = Num (n + 1)"
| "jsinc _ = NaN"

fun jsdec :: "jsnum option \<Rightarrow> jsnum" where
  "jsdec (Some (Num n)) = Num (n - 1)"
| "jsdec _ = NaN"

subsection \<open>\<open>parseInt\<close> and \<open>Number.prototype.toString\<close>\<close>

text \<open>
  \<open>parseInt(string)\<close> without a radix, after ECMAScript: leading white space is
  skipped, an optional sign is read, a prefix \<open>0x\<close> or \<open>0X\<close> selects radix 16
  (otherwise 10), the longest prefix of digits of that radix is read and everything after
  it is ignored; with no digit the result is \<open>NaN\<close>, modelled by \<open>None\<close>.
  Strings are lists of 8-bit code units; the white space of that range is listed.
  The result \<open>-0\<close> is identified with \<open>0\<close>: it passes the same comparisons and names
  the same property key.
\<close>

definition isWhiteSpace :: "char \<Rightarrow> bool" where
  "isWhiteSpace c \<longleftrightarrow> (of_char c :: nat) \<in> {9, 10, 11, 12, 13, 32, 160}"

definition digitValue :: "char \<Rightarrow> nat option" where
  "digitValue c =
     (let n = (of_char c :: nat) in
      if 48 \<le> n \<and> n \<le> 57 then Some (n - 48)
      else if 97 \<le> n \<and> n \<le> 122 then Some (n - 87)
      else if 65 \<le> n \<and> n \<le> 90 then Some (n - 55)
      else None)"

definition isRadixDigit :: "nat \<Rightarrow> char \<Rightarrow> bool" where
  "isRadixDigit R c = (case digitValue c of None \<Rightarrow> False | Some d \<Rightarrow> d < R)"

definition digitsValue :: "nat \<Rightarrow> string \<Rightarrow> nat" where
  "digitsValue R Z =
     foldl (\<lambda>acc c. acc * R + (case digitValue c of None \<Rightarrow> 0 | Some d \<Rightarrow> d)) 0 Z"

definition parseInt :: "string \<Rightarrow> int option" where
  "parseInt inputString =
     (let S = dropWhile isWhiteSpace inputString;
          sign = (if S \<noteq> [] \<and> hd S = CHR ''-'' then - 1 else (1::int));
          S1 = (if S \<noteq> [] \<and> (hd S = CHR ''+'' \<or> hd S = CHR ''-'') then tl S else S);
          hex = (take 2 S1 = ''0x'' \<or> take 2 S1 = ''0X'');
          R = (if hex then 16 else 10);
          S2 = (if hex then drop 2 S1 else S1);
          Z = takeWhile (isRadixDigit R) S2
      in if Z = [] then None else Some (sign * int (digitsValue R Z)))"

text \<open>\<open>n.toString()\<close> for an integer \<open>n\<close>: decimal digits, with a minus sign.\<close>

fun natToString :: "nat \<Rightarrow> string" where
  "natToString n =
     (if n < 10 then [''0123456789'' ! n]
      else natToString (n div 10) @ [''0123456789'' ! (n mod 10)])"

declare natToString.simps [simp del]

definition toString :: "int \<Rightarrow> string" where
  "toString n = (if n < 0 then CHR ''-'' # natToString (nat (- n)) else natToString (nat n))"

section \<open>FactoryDropHandler\<close>

text \<open>
  \<open>FactoryState\<close> without its DOM elements. \<open>factories\<close> is a JavaScript \<open>Map\<close>:
  an association list in insertion order, read with \<open>map_of\<close>; \<open>Map.set\<close> and the
  in-place mutation of an entry's object are \<open>AList.update\<close>, which keeps the position of
  an existing key and appends a new one. The two callback fields record whether a
  callback is installed; a call of an installed callback is returned by the handler
  functions as the pair of its arguments, and the controller below runs the closure that
  it installed.
\<close>

record FactoryState =
  factoryId :: int
  tiles :: "int list"

record FactoryDropHandler =
  factories :: "(int \<times> FactoryState) list"
  onTileDropped :: bool
  onTileRemoved :: bool
  enabled :: bool

definition new_FactoryDropHandler :: FactoryDropHandler where
  "new_FactoryDropHandler =
     \<lparr>factories = [], onTileDropped = False, onTileRemoved = False, enabled = True\<rparr>"

text \<open>
  \<open>setupDropZones(factoryElements)\<close>: only the number of elements matters here; the
  element at \<open>index\<close> gets the id \<open>index + 1\<close> and an empty tile list.
\<close>

definition setupDropZones :: "nat \<Rightarrow> FactoryDropHandler \<Rightarrow> FactoryDropHandler" where
  "setupDropZones numElements h =
     h\<lparr>factories :=
         foldl (\<lambda>m index. AList.update (int index + 1)
                             \<lparr>factoryId = int index + 1, tiles = []\<rparr> m)
               [] [0..<numElements]\<rparr>"

definition addTileToFactory ::
    "int \<Rightarrow> int \<Rightarrow> FactoryDropHandler \<Rightarrow> bool \<times> FactoryDropHandler" where
  "addTileToFactory fid color h =
     (case map_of (factories h) fid of
        None \<Rightarrow> (False, h)
      | Some fac \<Rightarrow>
          if length (tiles fac) \<ge> 4 then (False, h)
          else (True, h\<lparr>factories :=
                  AList.update fid (fac\<lparr>tiles := tiles fac @ [color]\<rparr>) (factories h)\<rparr>))"

text \<open>\<open>splice(slotIndex, 1)\<close> removes the element at \<open>slotIndex\<close> and closes the gap.\<close>

definition splice1 :: "nat \<Rightarrow> 'a list \<Rightarrow> 'a list" where
  "splice1 i xs = take i xs @ drop (Suc i) xs"

definition removeTileFromFactory ::
    "int \<Rightarrow> nat \<Rightarrow> FactoryDropHandler \<Rightarrow> int option \<times> FactoryDropHandler" where
  "removeTileFromFactory fid slotIndex h =
     (case map_of (factories h) fid of
        None \<Rightarrow> (None, h)
      | Some fac \<Rightarrow>
          if slotIndex \<ge> length (tiles fac) then (None, h)
          else (Some (tiles fac ! slotIndex),
                h\<lparr>factories :=
                  AList.update fid (fac\<lparr>tiles := splice1 slotIndex (tiles fac)\<rparr>)
                    (factories h)\<rparr>))"

text \<open>
  \<open>handleDrop(e, factoryId)\<close>: the first argument is
  \<open>e.dataTransfer?.getData("text/plain")\<close>, \<open>None\<close> for \<open>undefined\<close>. The second
  component of the result is the call of \<open>onTileDropped\<close> that the handler makes, if any.
\<close>

definition handleDrop ::
    "string option \<Rightarrow> int \<Rightarrow> FactoryDropHandler \<Rightarrow> FactoryDropHandler \<times> (int \<times> int) option" where
  "handleDrop payload fid h =
     (if \<not> enabled h then (h, None)
      else (case payload of
        None \<Rightarrow> (h, None)
      | Some colorStr \<Rightarrow>
          (if colorStr = [] then (h, None)
           else (case parseInt colorStr of
             None \<Rightarrow> (h, None)
           | Some color \<Rightarrow>
               (if color < 0 \<or> color > 4 then (h, None)
                else (let (ok, h') = addTileToFactory fid color h
                      in if ok
                         then (h', if onTileDropped h' then Some (fid, color) else None)
                         else (h', None)))))))"

text \<open>
  \<open>handleTileClick(e, factoryId, slotIndex)\<close>; the second component is the call of
  \<open>onTileRemoved\<close>, if any.
\<close>

definition handleTileClick ::
    "int \<Rightarrow> nat \<Rightarrow> FactoryDropHandler \<Rightarrow> FactoryDropHandler \<times> (int \<times> int) option" where
  "handleTileClick fid slotIndex h =
     (if \<not> enabled h then (h, None)
      else (case map_of (factories h) fid of
        None \<Rightarrow> (h, None)
      | Some fac \<Rightarrow>
          (if slotIndex < length (tiles fac) then
             (let color = tiles fac ! slotIndex;
                  h' = snd (removeTileFromFactory fid slotIndex h)
              in (h', if onTileRemoved h' then Some (fid, color) else None))
           else (h, None))))"

definition getTotalTilesPlaced :: "FactoryDropHandler \<Rightarrow> int" where
  "getTotalTilesPlaced h =
     foldl (\<lambda>total kv. total + int (length (tiles (snd kv)))) 0 (factories h)"

definition isComplete :: "int \<Rightarrow> FactoryDropHandler \<Rightarrow> bool" where
  "isComplete totalTilesAvailable h =
     (let totalPlaced =
            foldl (\<lambda>acc kv. acc + int (length (tiles (snd kv)))) 0 (factories h);
          maxCapacity = int (length (factories h)) * 4
      in totalPlaced \<ge> min totalTilesAvailable maxCapacity)"

text \<open>
  \<open>getFactoryConfiguration()\<close>: the keys sorted ascending, a copy of each tile list.
\<close>

definition getFactoryConfiguration :: "FactoryDropHandler \<Rightarrow> int list list" where
  "getFactoryConfiguration h =
     (let sortedIds = sort (map fst (factories h))
      in concat (map (\<lambda>id. case map_of (factories h) id of
                             None \<Rightarrow> []
                           | Some fac \<Rightarrow> [tiles fac]) sortedIds))"

definition destroy :: "FactoryDropHandler \<Rightarrow> FactoryDropHandler" where
  "destroy h = h\<lparr>factories := []\<rparr>"

section \<open>BagView\<close>

text \<open>
  A method declared \<open>void\<close> has no \<open>return\<close> statement: a call of it evaluates to
  \<open>undefined\<close>. \<open>jsvalue\<close> holds the results that are compared below.
\<close>

datatype jsvalue = Undefined | Boolean bool

text \<open>
  \<open>BagView\<close> without its DOM container. \<open>tileCounts\<close> is a JavaScript object keyed by
  colour, an association list read with \<open>map_of\<close> and written with \<open>AList.update\<close>.
  \<open>startRoundBtn\<close> is \<open>None\<close> for \<open>null\<close> and otherwise holds the button's
  \<open>disabled\<close> property; \<open>onDistributionComplete\<close> records whether the callback is
  installed.
\<close>

record BagView =
  tileCounts :: "(int \<times> jsnum) list"
  tilesPlaced :: int
  tilesNeeded :: int
  startRoundBtn :: "bool option"
  onDistributionComplete :: bool

definition new_BagView :: BagView where
  "new_BagView =
     \<lparr>tileCounts = [], tilesPlaced = 0, tilesNeeded = 0, startRoundBtn = None,
      onDistributionComplete = False\<rparr>"

definition countTilesInBag :: "int list \<Rightarrow> (int \<times> jsnum) list" where
  "countTilesInBag bag =
     foldl (\<lambda>counts tile.
              if tile \<ge> 0 \<and> tile \<le> 4
              then AList.update tile (jsinc (map_of counts tile)) counts
              else counts)
           [(0, Num 0), (1, Num 0), (2, Num 0), (3, Num 0), (4, Num 0)] bag"

text \<open>\<open>Object.values(this.tileCounts).reduce((a, b) => a + b, 0)\<close>\<close>

definition totalAvailable :: "(int \<times> jsnum) list \<Rightarrow> jsnum" where
  "totalAvailable counts = foldl jsadd (Num 0) (map snd counts)"

definition updateStatus :: "BagView \<Rightarrow> BagView" where
  "updateStatus b =
     (let total = totalAvailable (tileCounts b);
          remaining = jssub (jsmin (Num (tilesNeeded b)) (jsadd total (Num (tilesPlaced b))))
                            (Num (tilesPlaced b))
      in case startRoundBtn b of
           None \<Rightarrow> b
         | Some d \<Rightarrow>
             (let allPlaced = (remaining = Num 0 \<or> total = Num 0)
              in b\<lparr>startRoundBtn := Some (\<not> allPlaced)\<rparr>))"

text \<open>
  \<open>create(tilebag, tilesNeeded)\<close>: the markup it writes contains the start button,
  disabled, before \<open>updateStatus\<close> runs.
\<close>

definition create :: "int list \<Rightarrow> int \<Rightarrow> BagView \<Rightarrow> BagView" where
  "create bag needed b =
     updateStatus (b\<lparr>tileCounts := countTilesInBag bag, tilesNeeded := needed,
                     tilesPlaced := 0, startRoundBtn := Some True\<rparr>)"

text \<open>
  \<open>handleDragStart(e, color)\<close>: \<open>None\<close> when the drag is prevented, otherwise the
  \<open>text/plain\<close> data it sets.
\<close>

definition handleDragStart :: "int \<Rightarrow> BagView \<Rightarrow> string option" where
  "handleDragStart color b =
     (if jsle0 (map_of (tileCounts b) color) then None else Some (toString color))"

definition tilePlaced :: "int \<Rightarrow> BagView \<Rightarrow> jsvalue \<times> BagView" where
  "tilePlaced color b =
     (if jsgt0 (map_of (tileCounts b) color)
      then (Undefined,
            updateStatus
              (b\<lparr>tileCounts :=
                   AList.update color (jsdec (map_of (tileCounts b) color)) (tileCounts b),
                 tilesPlaced := tilesPlaced b + 1\<rparr>))
      else (Undefined, b))"

definition tileReturned :: "int \<Rightarrow> BagView \<Rightarrow> BagView" where
  "tileReturned color b =
     updateStatus
       (b\<lparr>tileCounts :=
            AList.update color (jsinc (map_of (tileCounts b) color)) (tileCounts b),
          tilesPlaced := tilesPlaced b - 1\<rparr>)"

section \<open>GuiGame: the distribution phase\<close>

text \<open>
  The rules engine is an external library. Of its \<open>GameState\<close> the controller reads and
  writes \<open>factory\<close> (index 0 is the centre) and \<open>tilebag\<close>, and calls \<open>getMoves\<close>.
\<close>

record GameState =
  factory :: "int list list"
  tilebag :: "int list"
  movesComputedFrom :: "int list list"

text \<open>
  Modelled from the spec: the engine's \<open>getMoves\<close> is not part of the sources; the
  engine offers "a method to recompute its legal-move set from current factory state".
  The legal-move set is represented by the factory contents it was last computed from.
\<close>

definition getMoves :: "GameState \<Rightarrow> GameState" where
  "getMoves gs = gs\<lparr>movesComputedFrom := factory gs\<rparr>"

text \<open>
  Modelled from the spec: \<open>display.create_empty_factories\<close> and
  \<open>display.getRegularFactories\<close> are not part of the sources; the phase registers the
  factory ids \<open>1..numFactories\<close>, so the display hands over \<open>numFactories\<close> elements.
\<close>

definition getRegularFactories :: "int \<Rightarrow> nat" where
  "getRegularFactories numFactories = nat numFactories"

record GuiGame =
  gamestate :: GameState
  ourBag :: "int list"
  discardedTiles :: "int list"
  manualDistributionMode :: bool
  bagView :: "BagView option"
  factoryDropHandler :: "FactoryDropHandler option"

text \<open>
  \<open>restoreTilesToBag()\<close>; \<open>Null\<close> is the library's constant \<open>Tile.Null\<close>, a
  parameter here.
\<close>

definition restoreTilesToBag :: "int \<Rightarrow> GameState \<Rightarrow> GameState" where
  "restoreTilesToBag Null gs =
     foldl (\<lambda>gs i.
              gs\<lparr>tilebag := tilebag gs @ filter (\<lambda>tile. tile \<noteq> Null \<and> tile \<ge> 0) (factory gs ! i),
                 factory := (factory gs)[i := []]\<rparr>)
           gs [1..<length (factory gs)]"

text \<open>The first two blocks of \<open>enterManualDistributionPhase\<close>, named for reference.\<close>

definition initOurBag :: "int \<Rightarrow> GuiGame \<Rightarrow> GuiGame" where
  "initOurBag Null g =
     (if length (ourBag g) = 0
      then (let gs = restoreTilesToBag Null (gamestate g)
            in g\<lparr>gamestate := gs, ourBag := tilebag gs\<rparr>)
      else g)"

definition refillFromDiscarded :: "int \<Rightarrow> GuiGame \<Rightarrow> GuiGame" where
  "refillFromDiscarded tilesPerRound g =
     (if int (length (ourBag g)) < tilesPerRound \<and> length (discardedTiles g) > 0
      then g\<lparr>ourBag := ourBag g @ discardedTiles g, discardedTiles := []\<rparr>
      else g)"

definition enterManualDistributionPhase :: "int \<Rightarrow> GuiGame \<Rightarrow> GuiGame" where
  "enterManualDistributionPhase Null g =
     (let numFactories = int (length (factory (gamestate g))) - 1;
          tilesPerRound = numFactories * 4;
          g1 = initOurBag Null g;
          g2 = refillFromDiscarded tilesPerRound g1;
          bv = create (ourBag g2) tilesPerRound new_BagView;
          h = setupDropZones (getRegularFactories numFactories) new_FactoryDropHandler
      in g2\<lparr>bagView := Some (bv\<lparr>onDistributionComplete := True\<rparr>),
            factoryDropHandler := Some (h\<lparr>onTileDropped := True, onTileRemoved := True\<rparr>),
            manualDistributionMode := True\<rparr>)"

text \<open>
  \<open>a[i] = v\<close> on a JavaScript array: beyond the end the array grows; the positions
  skipped are holes, rendered as empty lists.
\<close>

definition arraySet :: "int list list \<Rightarrow> nat \<Rightarrow> int list \<Rightarrow> int list list" where
  "arraySet xs i v =
     (if i < length xs then xs[i := v] else xs @ replicate (i - length xs) [] @ [v])"

text \<open>
  \<open>applyManualDistribution()\<close>; \<open>indexOf\<close> followed by \<open>splice\<close> removes the first
  occurrence, if there is one, which is \<open>remove1\<close>.
\<close>

definition applyManualDistribution :: "GuiGame \<Rightarrow> GuiGame" where
  "applyManualDistribution g =
     (case factoryDropHandler g of
        None \<Rightarrow> g
      | Some h \<Rightarrow>
          (let factoryConfig = getFactoryConfiguration h;
               fs = foldl (\<lambda>fs index. arraySet fs (index + 1) (factoryConfig ! index))
                          (factory (gamestate g)) [0..<length factoryConfig];
               bag = foldl (\<lambda>bag fac. foldl (\<lambda>bag tileColor. remove1 tileColor bag) bag fac)
                           (ourBag g) factoryConfig;
               gs = getMoves ((gamestate g)\<lparr>factory := fs, tilebag := bag\<rparr>)
           in g\<lparr>gamestate := gs, ourBag := bag, bagView := None,
                 factoryDropHandler := None, manualDistributionMode := False\<rparr>))"

subsection \<open>Events of the phase\<close>

text \<open>
  The closures installed by \<open>enterManualDistributionPhase\<close>:
  \<open>onTileDropped\<close> runs \<open>this.bagView?.tilePlaced(color)\<close> and \<open>onTileRemoved\<close> runs
  \<open>this.bagView?.tileReturned(color)\<close>.
\<close>

definition onTileDroppedClosure :: "int \<Rightarrow> int \<Rightarrow> GuiGame \<Rightarrow> GuiGame" where
  "onTileDroppedClosure fid color g =
     (case bagView g of
        None \<Rightarrow> g
      | Some b \<Rightarrow> g\<lparr>bagView := Some (snd (tilePlaced color b))\<rparr>)"

definition onTileRemovedClosure :: "int \<Rightarrow> int \<Rightarrow> GuiGame \<Rightarrow> GuiGame" where
  "onTileRemovedClosure fid color g =
     (case bagView g of
        None \<Rightarrow> g
      | Some b \<Rightarrow> g\<lparr>bagView := Some (tileReturned color b)\<rparr>)"

text \<open>A \<open>drop\<close> event on a slot of factory \<open>fid\<close>, carrying \<open>payload\<close>.\<close>

definition dropOn :: "string option \<Rightarrow> int \<Rightarrow> GuiGame \<Rightarrow> GuiGame" where
  "dropOn payload fid g =
     (case factoryDropHandler g of
        None \<Rightarrow> g
      | Some h \<Rightarrow>
          (let (h', call) = handleDrop payload fid h;
               g1 = g\<lparr>factoryDropHandler := Some h'\<rparr>
           in case call of
                None \<Rightarrow> g1
              | Some (fid', color) \<Rightarrow> onTileDroppedClosure fid' color g1))"

text \<open>A \<open>click\<close> event on slot \<open>slotIndex\<close> of factory \<open>fid\<close>.\<close>

definition clickSlot :: "int \<Rightarrow> nat \<Rightarrow> GuiGame \<Rightarrow> GuiGame" where
  "clickSlot fid slotIndex g =
     (case factoryDropHandler g of
        None \<Rightarrow> g
      | Some h \<Rightarrow>
          (let (h', call) = handleTileClick fid slotIndex h;
               g1 = g\<lparr>factoryDropHandler := Some h'\<rparr>
           in case call of
                None \<Rightarrow> g1
              | Some (fid', color) \<Rightarrow> onTileRemovedClosure fid' color g1))"

text \<open>
  A drag that starts on the bag tile of \<open>color\<close> and ends on factory \<open>fid\<close>.
  \<open>create\<close> builds bag tiles for the colours 0 to 4 only.
\<close>

definition dragFromBag :: "int \<Rightarrow> int \<Rightarrow> GuiGame \<Rightarrow> GuiGame" where
  "dragFromBag color fid g =
     (if 0 \<le> color \<and> color \<le> 4 then
        (case bagView g of
           None \<Rightarrow> g
         | Some b \<Rightarrow>
             (case handleDragStart color b of
                None \<Rightarrow> g
              | Some data \<Rightarrow> dropOn (Some data) fid g))
      else g)"

text \<open>
  A click on the start button: a disabled button delivers no click; otherwise the
  listener runs \<open>onDistributionComplete\<close>, which is \<open>applyManualDistribution\<close>.
\<close>

definition clickStart :: "GuiGame \<Rightarrow> GuiGame" where
  "clickStart g =
     (case bagView g of
        None \<Rightarrow> g
      | Some b \<Rightarrow>
          if startRoundBtn b = Some False \<and> onDistributionComplete b
          then applyManualDistribution g else g)"

datatype event =
    DragFromBag int int
  | Drop "string option" int
  | ClickSlot int nat
  | ClickStart

fun step :: "event \<Rightarrow> GuiGame \<Rightarrow> GuiGame" where
  "step (DragFromBag color fid) g = dragFromBag color fid g"
| "step (Drop payload fid) g = dropOn payload fid g"
| "step (ClickSlot fid slotIndex) g = clickSlot fid slotIndex g"
| "step ClickStart g = clickStart g"

definition run :: "event list \<Rightarrow> GuiGame \<Rightarrow> GuiGame" where
  "run evs g = foldl (\<lambda>g ev. step ev g) g evs"

section \<open>Properties: auxiliary definitions\<close>

subsection \<open>Payloads that the drop handler rejects\<close>

text \<open>
  A payload that is absent, empty, or whose \<open>parseInt\<close> is \<open>NaN\<close> or lies outside
  0 to 4.
\<close>

definition rejectedPayload :: "string option \<Rightarrow> bool" where
  "rejectedPayload payload =
     (case payload of
        None \<Rightarrow> True
      | Some s \<Rightarrow> s = [] \<or> (case parseInt s of None \<Rightarrow> True | Some c \<Rightarrow> c < 0 \<or> c > 4))"

subsection \<open>Concrete states\<close>

text \<open>Five factories holding 18 tiles in all.\<close>

definition handler18 :: FactoryDropHandler where
  "handler18 =
     \<lparr>factories =
        [(1, \<lparr>factoryId = 1, tiles = [0, 0, 0, 0]\<rparr>),
         (2, \<lparr>factoryId = 2, tiles = [1, 1, 1, 1]\<rparr>),
         (3, \<lparr>factoryId = 3, tiles = [2, 2, 2, 2]\<rparr>),
         (4, \<lparr>factoryId = 4, tiles = [3, 3, 3, 3]\<rparr>),
         (5, \<lparr>factoryId = 5, tiles = [4, 4]\<rparr>)],
      onTileDropped = True, onTileRemoved = True, enabled = True\<rparr>"

subsection \<open>Counts and placed tiles as integers\<close>

text \<open>The count of a colour, 0 where the object has no numeric entry for it.\<close>

definition cnt :: "(int \<times> jsnum) list \<Rightarrow> int \<Rightarrow> int" where
  "cnt counts c = (case map_of counts c of Some (Num n) \<Rightarrow> n | _ \<Rightarrow> 0)"

text \<open>
  The shape \<open>countTilesInBag\<close> produces: exactly the keys 0 to 4, each with a
  non-negative number.
\<close>

definition wfCounts :: "(int \<times> jsnum) list \<Rightarrow> bool" where
  "wfCounts counts \<longleftrightarrow>
     map fst counts = [0, 1, 2, 3, 4] \<and>
     list_all (\<lambda>v. case v of Num n \<Rightarrow> 0 \<le> n | NaN \<Rightarrow> False) (map snd counts)"

definition supplyTotal :: "(int \<times> jsnum) list \<Rightarrow> int" where
  "supplyTotal counts = (\<Sum>c\<leftarrow>[0, 1, 2, 3, 4]. cnt counts c)"

text \<open>The button state is the one \<open>updateStatus\<close> computes from the current fields.\<close>

definition statusOK :: "BagView \<Rightarrow> bool" where
  "statusOK b \<longleftrightarrow> updateStatus b = b \<and> startRoundBtn b \<noteq> None"

text \<open>Tiles of colour \<open>c\<close> on all factories, and the number of tiles of colour 0 to 4 in a bag.\<close>

definition placedOf :: "FactoryDropHandler \<Rightarrow> int \<Rightarrow> int" where
  "placedOf h c = (\<Sum>kv\<leftarrow>factories h. int (count_list (tiles (snd kv)) c))"

definition colourTiles :: "int list \<Rightarrow> int" where
  "colourTiles bag = (\<Sum>c\<leftarrow>[0, 1, 2, 3, 4]. int (count_list bag c))"

text \<open>
  What holds of a handler during a phase: it is enabled, both callbacks are installed,
  no factory holds more than four tiles, every tile is a colour 0 to 4, and the keys are
  \<open>1..n\<close> in insertion order.
\<close>

definition handlerOK :: "FactoryDropHandler \<Rightarrow> bool" where
  "handlerOK h \<longleftrightarrow>
     enabled h \<and> onTileDropped h \<and> onTileRemoved h \<and>
     list_all (\<lambda>kv. length (tiles (snd kv)) \<le> 4 \<and>
                     list_all (\<lambda>t. 0 \<le> t \<and> t \<le> 4) (tiles (snd kv))) (factories h) \<and>
     map fst (factories h) = map (\<lambda>i. int i + 1) [0..<length (factories h)]"

text \<open>The handler with the tile list of one factory replaced.\<close>

definition withTiles :: "int \<Rightarrow> FactoryState \<Rightarrow> int list \<Rightarrow> FactoryDropHandler \<Rightarrow> FactoryDropHandler" where
  "withTiles fid fac ts h = h\<lparr>factories := AList.update fid (fac\<lparr>tiles := ts\<rparr>) (factories h)\<rparr>"

subsection \<open>Invariants of a distribution phase\<close>

text \<open>
  \<open>phaseOK\<close>: both components exist and are well formed, the handler has one factory
  per regular factory of the engine, and \<open>tilesNeeded\<close> is four times the engine's
  number of regular factories.
\<close>

definition phaseOK :: "GuiGame \<Rightarrow> bool" where
  "phaseOK g \<longleftrightarrow>
     (case bagView g of
        None \<Rightarrow> False
      | Some b \<Rightarrow>
          (case factoryDropHandler g of
             None \<Rightarrow> False
           | Some h \<Rightarrow>
               wfCounts (tileCounts b) \<and> statusOK b \<and> onDistributionComplete b \<and>
               handlerOK h \<and>
               length (factories h) = length (factory (gamestate g)) - 1 \<and>
               tilesNeeded b = (int (length (factory (gamestate g))) - 1) * 4 \<and>
               (factories h = [] \<longrightarrow> tilesPlaced b = 0)))"

text \<open>
  \<open>bagOK\<close>: for each colour the bag holds at most what the counts and the factories
  hold together, and the bag view's own tally adds up to the bag.
\<close>

definition bagOK :: "GuiGame \<Rightarrow> bool" where
  "bagOK g \<longleftrightarrow>
     (case bagView g of
        None \<Rightarrow> False
      | Some b \<Rightarrow>
          (case factoryDropHandler g of
             None \<Rightarrow> False
           | Some h \<Rightarrow>
               list_all (\<lambda>c. int (count_list (ourBag g) c) \<le> cnt (tileCounts b) c + placedOf h c)
                        [0, 1, 2, 3, 4] \<and>
               supplyTotal (tileCounts b) + tilesPlaced b = colourTiles (ourBag g)))"

subsection \<open>Event sequences\<close>

text \<open>
  An event of a phase is supplied when it cannot put a tile on a factory that the counts
  do not hold: a drag from the bag (which starts only on a colour with a positive count),
  a click on a slot, and a drop that is either rejected for its payload or names a
  colour whose count is positive. A run is supplied when each event is, in the state in
  which it arrives. The start button ends the phase and is not among them.
\<close>

fun supplied :: "GuiGame \<Rightarrow> event \<Rightarrow> bool" where
  "supplied g (DragFromBag color fid) = True"
| "supplied g (ClickSlot fid slotIndex) = True"
| "supplied g (Drop payload fid) =
     (rejectedPayload payload \<or>
      (case bagView g of
         None \<Rightarrow> False
       | Some b \<Rightarrow>
           (case payload of
              None \<Rightarrow> False
            | Some s \<Rightarrow>
                (case parseInt s of
                   None \<Rightarrow> False
                 | Some c \<Rightarrow> jsgt0 (map_of (tileCounts b) c)))))"
| "supplied g ClickStart = False"

fun suppliedRun :: "GuiGame \<Rightarrow> event list \<Rightarrow> bool" where
  "suppliedRun g [] = True"
| "suppliedRun g (ev # evs) = (supplied g ev \<and> suppliedRun (step ev g) evs)"

text \<open>
  The quantity of the conservation property during a phase: the sum of the counts, the
  tiles on all factories and the length of the discard pile; \<open>None\<close> outside a phase.
\<close>

definition accounted :: "GuiGame \<Rightarrow> jsnum option" where
  "accounted g =
     (case bagView g of
        None \<Rightarrow> None
      | Some b \<Rightarrow>
          (case factoryDropHandler g of
             None \<Rightarrow> None
           | Some h \<Rightarrow>
               Some (jsadd (totalAvailable (tileCounts b))
                           (Num (getTotalTilesPlaced h + int (length (discardedTiles g)))))))"

subsection \<open>A small game\<close>

text \<open>
  An engine with the centre and two regular factories, dealt by the engine, and two tiles
  left in its bag; the controller before its first phase. \<open>Tile.Null\<close> is taken as -1.
\<close>

definition engineA :: GameState where
  "engineA = \<lparr>factory = [[], [0, 1, 2, 3], [4, 0, 1, 2]], tilebag = [3, 4], movesComputedFrom = []\<rparr>"

definition gameA :: GuiGame where
  "gameA =
     \<lparr>gamestate = engineA, ourBag = [], discardedTiles = [], manualDistributionMode = False,
      bagView = None, factoryDropHandler = None\<rparr>"

text \<open>Eight drags that fill both factories, in the order the colours lie in the bag.\<close>

definition fillA :: "event list" where
  "fillA =
     [DragFromBag 3 1, DragFromBag 4 1, DragFromBag 0 1, DragFromBag 1 1,
      DragFromBag 2 2, DragFromBag 3 2, DragFromBag 4 2, DragFromBag 0 2]"

text \<open>
  A state is tracked when it is inside a phase with both invariants, or outside any
  phase with both components gone.
\<close>

definition tracked :: "GuiGame \<Rightarrow> bool" where
  "tracked g \<longleftrightarrow>
     (phaseOK g \<and> bagOK g) \<or> (bagView g = None \<and> factoryDropHandler g = None)"

text \<open>The handler once \<open>fillA\<close> has run.\<close>

definition handlerA :: FactoryDropHandler where
  "handlerA =
     \<lparr>factories =
        [(1, \<lparr>factoryId = 1, tiles = [3, 4, 0, 1]\<rparr>),
         (2, \<lparr>factoryId = 2, tiles = [2, 3, 4, 0]\<rparr>)],
      onTileDropped = True, onTileRemoved = True, enabled = True\<rparr>"

subsection \<open>Further concrete states\<close>

text \<open>The bag view once \<open>fillA\<close> has run: one tile of colour 1 and one of colour 2 are left.\<close>

definition bagViewA :: BagView where
  "bagViewA =
     \<lparr>tileCounts = [(0, Num 0), (1, Num 1), (2, Num 1), (3, Num 0), (4, Num 0)],
      tilesPlaced = 8, tilesNeeded = 8, startRoundBtn = Some False,
      onDistributionComplete = True\<rparr>"

text \<open>
  A later round of a two-player game: five regular factories, three tiles in the bag and
  fifteen on the discard pile.
\<close>

definition gameLate :: GuiGame where
  "gameLate =
     \<lparr>gamestate = \<lparr>factory = [[], [], [], [], [], []], tilebag = [], movesComputedFrom = []\<rparr>,
      ourBag = [0, 1, 2],
      discardedTiles = [0, 0, 0, 1, 1, 1, 2, 2, 2, 3, 3, 3, 4, 4, 4],
      manualDistributionMode = False, bagView = None, factoryDropHandler = None\<rparr>"

text \<open>A tile is a colour when it lies between 0 and 4.\<close>

definition isColour :: "int \<Rightarrow> bool" where
  "isColour t \<longleftrightarrow> 0 \<le> t \<and> t \<le> 4"




text \<open>
  Eighteen drags in the late round: all the tiles the bag holds after the refill, spread
  over the five factories.
\<close>

definition fillLate :: "event list" where
  "fillLate =
     [DragFromBag 0 1, DragFromBag 0 1, DragFromBag 0 1, DragFromBag 0 1,
      DragFromBag 1 2, DragFromBag 1 2, DragFromBag 1 2, DragFromBag 1 2,
      DragFromBag 2 3, DragFromBag 2 3, DragFromBag 2 3, DragFromBag 2 3,
      DragFromBag 3 4, DragFromBag 3 4, DragFromBag 3 4,
      DragFromBag 4 5, DragFromBag 4 5, DragFromBag 4 5]"


section \<open>Evaluation and basic lemmas\<close>

lemmas parseInt_eval =
  parseInt_def isWhiteSpace_def isRadixDigit_def digitValue_def digitsValue_def

lemma foldl_add_sum_list:
  "foldl (\<lambda>acc x. acc + f x) a xs = a + sum_list (map f xs)" for a :: int
  by (induction xs arbitrary: a) simp_all

lemma getTotalTilesPlaced_sum:
  "getTotalTilesPlaced h = (\<Sum>kv\<leftarrow>factories h. int (length (tiles (snd kv))))"
  by (simp add: getTotalTilesPlaced_def foldl_add_sum_list)

lemma handleDrop_rejected: "rejectedPayload p \<Longrightarrow> handleDrop p fid h = (h, None)"
  by (auto simp: rejectedPayload_def handleDrop_def split: option.splits)

subsection \<open>Counts of the bag view\<close>

lemma wfCountsE:
  assumes "wfCounts counts"
  obtains a0 a1 a2 a3 a4 where
    "counts = [(0, Num a0), (1, Num a1), (2, Num a2), (3, Num a3), (4, Num a4)]"
    "0 \<le> a0" "0 \<le> a1" "0 \<le> a2" "0 \<le> a3" "0 \<le> a4"
proof -
  from assms have k: "map fst counts = [0, 1, 2, 3, 4]"
    and v: "list_all (\<lambda>v. case v of Num n \<Rightarrow> 0 \<le> n | NaN \<Rightarrow> False) (map snd counts)"
    by (simp_all add: wfCounts_def)
  from k obtain p0 p1 p2 p3 p4 where c: "counts = [p0, p1, p2, p3, p4]"
    by (auto simp: map_eq_Cons_conv)
  with k have f: "fst p0 = 0" "fst p1 = 1" "fst p2 = 2" "fst p3 = 3" "fst p4 = 4" by simp_all
  from v c obtain a0 a1 a2 a3 a4 where
    s: "snd p0 = Num a0" "snd p1 = Num a1" "snd p2 = Num a2" "snd p3 = Num a3" "snd p4 = Num a4"
    and n: "0 \<le> a0" "0 \<le> a1" "0 \<le> a2" "0 \<le> a3" "0 \<le> a4"
    by (auto split: jsnum.splits)
  from c f s have e: "counts = [(0, Num a0), (1, Num a1), (2, Num a2), (3, Num a3), (4, Num a4)]"
    by (simp add: prod_eq_iff)
  from e n show thesis by (rule that)
qed

lemma wfCountsI:
  "0 \<le> a0 \<Longrightarrow> 0 \<le> a1 \<Longrightarrow> 0 \<le> a2 \<Longrightarrow> 0 \<le> a3 \<Longrightarrow> 0 \<le> a4 \<Longrightarrow>
   wfCounts [(0, Num a0), (1, Num a1), (2, Num a2), (3, Num a3), (4, Num a4)]"
  by (simp add: wfCounts_def)

lemma colourE:
  assumes "0 \<le> c" "c \<le> 4"
  obtains "c = 0" | "c = 1" | "c = 2" | "c = 3" | "c = (4::int)"
  using assms by arith

lemma totalAvailable_wf:
  "wfCounts counts \<Longrightarrow> totalAvailable counts = Num (supplyTotal counts)"
  by (erule wfCountsE) (simp add: totalAvailable_def supplyTotal_def cnt_def)

lemma updateStatus_fields [simp]:
  "tileCounts (updateStatus b) = tileCounts b"
  "tilesPlaced (updateStatus b) = tilesPlaced b"
  "tilesNeeded (updateStatus b) = tilesNeeded b"
  "onDistributionComplete (updateStatus b) = onDistributionComplete b"
  "(startRoundBtn (updateStatus b) = None) = (startRoundBtn b = None)"
  by (simp_all add: updateStatus_def Let_def split: option.splits)

lemma updateStatus_idem: "updateStatus (updateStatus b) = updateStatus b"
  by (cases "startRoundBtn b") (simp_all add: updateStatus_def Let_def)

lemma statusOK_updateStatus: "startRoundBtn b \<noteq> None \<Longrightarrow> statusOK (updateStatus b)"
  by (simp add: statusOK_def updateStatus_idem)

lemma jsgt0_wf:
  "wfCounts counts \<Longrightarrow> 0 \<le> c \<Longrightarrow> c \<le> 4 \<Longrightarrow> jsgt0 (map_of counts c) = (0 < cnt counts c)"
  by (erule wfCountsE, erule (1) colourE) (simp_all add: cnt_def)

lemma jsle0_wf:
  "wfCounts counts \<Longrightarrow> 0 \<le> c \<Longrightarrow> c \<le> 4 \<Longrightarrow> jsle0 (map_of counts c) = (cnt counts c \<le> 0)"
  by (erule wfCountsE, erule (1) colourE) (simp_all add: cnt_def)

lemma cnt_nonneg: "wfCounts counts \<Longrightarrow> 0 \<le> cnt counts c"
  by (erule wfCountsE) (simp add: cnt_def)

lemma dec_wf:
  assumes "wfCounts counts" "0 \<le> c" "c \<le> 4" "0 < cnt counts c"
  shows "wfCounts (AList.update c (jsdec (map_of counts c)) counts)"
    and "cnt (AList.update c (jsdec (map_of counts c)) counts) c' =
           (if c' = c then cnt counts c - 1 else cnt counts c')"
    and "supplyTotal (AList.update c (jsdec (map_of counts c)) counts) = supplyTotal counts - 1"
  using assms
  by (erule_tac [!] wfCountsE, erule_tac [!] colourE)
     (simp_all add: cnt_def wfCounts_def supplyTotal_def)

lemma inc_wf:
  assumes "wfCounts counts" "0 \<le> c" "c \<le> 4"
  shows "wfCounts (AList.update c (jsinc (map_of counts c)) counts)"
    and "cnt (AList.update c (jsinc (map_of counts c)) counts) c' =
           (if c' = c then cnt counts c + 1 else cnt counts c')"
    and "supplyTotal (AList.update c (jsinc (map_of counts c)) counts) = supplyTotal counts + 1"
  using assms
  by (erule_tac [!] wfCountsE, erule_tac [!] colourE)
     (simp_all add: cnt_def wfCounts_def supplyTotal_def)

subsection \<open>The factories of the drop handler\<close>

lemma update_sum:
  "map_of al k = Some f \<Longrightarrow>
   (\<Sum>kv\<leftarrow>AList.update k f' al. \<phi> (snd kv)) = (\<Sum>kv\<leftarrow>al. \<phi> (snd kv)) - \<phi> f + \<phi> f'"
  for \<phi> :: "'b \<Rightarrow> int"
  by (induction al) (auto split: if_splits)

lemma update_list_all:
  "list_all P al \<Longrightarrow> P (k, v) \<Longrightarrow> list_all P (AList.update k v al)"
  by (induction al) auto

lemma update_same_keys:
  "map_of al k = Some f \<Longrightarrow> map fst (AList.update k v al) = map fst al"
  by (induction al) (auto split: if_splits)

lemma map_of_list_all:
  "list_all P al \<Longrightarrow> map_of al k = Some f \<Longrightarrow> P (k, f)"
  by (induction al) (auto split: if_splits)

lemma update_same_length:
  "map_of al k = Some f \<Longrightarrow> length (AList.update k v al) = length al"
  by (induction al) (auto split: if_splits)

lemma withTiles_fields [simp]:
  "enabled (withTiles fid fac ts h) = enabled h"
  "onTileDropped (withTiles fid fac ts h) = onTileDropped h"
  "onTileRemoved (withTiles fid fac ts h) = onTileRemoved h"
  by (simp_all add: withTiles_def)

lemma withTiles_length:
  "map_of (factories h) fid = Some fac \<Longrightarrow>
   length (factories (withTiles fid fac ts h)) = length (factories h)"
  by (simp add: withTiles_def update_same_length)

lemma withTiles_lookup:
  "map_of (factories (withTiles fid fac ts h)) fid = Some (fac\<lparr>tiles := ts\<rparr>)"
  by (simp add: withTiles_def update_conv')

lemma withTiles_handlerOK:
  assumes "handlerOK h" "map_of (factories h) fid = Some fac"
    "length ts \<le> 4" "list_all (\<lambda>t. 0 \<le> t \<and> t \<le> 4) ts"
  shows "handlerOK (withTiles fid fac ts h)"
  using assms
  by (simp add: handlerOK_def withTiles_def update_list_all update_same_keys update_same_length)

lemma withTiles_placedOf:
  "map_of (factories h) fid = Some fac \<Longrightarrow>
   placedOf (withTiles fid fac ts h) c =
     placedOf h c - int (count_list (tiles fac) c) + int (count_list ts c)"
  by (simp add: placedOf_def withTiles_def update_sum [where \<phi> = "\<lambda>f. int (count_list (tiles f) c)"])

lemma withTiles_total:
  "map_of (factories h) fid = Some fac \<Longrightarrow>
   getTotalTilesPlaced (withTiles fid fac ts h) =
     getTotalTilesPlaced h - int (length (tiles fac)) + int (length ts)"
  by (simp add: getTotalTilesPlaced_sum withTiles_def update_sum [where \<phi> = "\<lambda>f. int (length (tiles f))"])

lemma withTiles_restore:
  "map_of (factories h) fid = Some fac \<Longrightarrow>
   withTiles fid (fac\<lparr>tiles := ts\<rparr>) (tiles fac) (withTiles fid fac ts h) = h"
  by (simp add: withTiles_def update_triv)

lemma handleDrop_cases [consumes 1, case_names rejected placed]:
  assumes "onTileDropped h"
  obtains (rejected) "handleDrop p fid h = (h, None)"
  | (placed) s c fac where "p = Some s" "s \<noteq> []" "parseInt s = Some c" "0 \<le> c" "c \<le> 4" "enabled h"
      "map_of (factories h) fid = Some fac" "length (tiles fac) < 4"
      "handleDrop p fid h = (withTiles fid fac (tiles fac @ [c]) h, Some (fid, c))"
  using assms
  by (fastforce simp: handleDrop_def addTileToFactory_def withTiles_def
      split: option.splits if_splits)

lemma handleTileClick_cases [consumes 1, case_names ignored removed]:
  assumes "onTileRemoved h"
  obtains (ignored) "handleTileClick fid slot h = (h, None)"
  | (removed) fac where "enabled h"
      "map_of (factories h) fid = Some fac" "slot < length (tiles fac)"
      "handleTileClick fid slot h =
         (withTiles fid fac (splice1 slot (tiles fac)) h, Some (fid, tiles fac ! slot))"
  using assms
  by (fastforce simp: handleTileClick_def removeTileFromFactory_def withTiles_def Let_def
      split: option.splits if_splits)

subsection \<open>Effect of the bag view operations\<close>

lemma tilePlaced_zero:
  "wfCounts (tileCounts b) \<Longrightarrow> 0 \<le> c \<Longrightarrow> c \<le> 4 \<Longrightarrow> cnt (tileCounts b) c \<le> 0 \<Longrightarrow>
   tilePlaced c b = (Undefined, b)"
  by (simp add: tilePlaced_def jsgt0_wf)

lemma tilePlaced_pos:
  "wfCounts (tileCounts b) \<Longrightarrow> 0 \<le> c \<Longrightarrow> c \<le> 4 \<Longrightarrow> 0 < cnt (tileCounts b) c \<Longrightarrow>
   tilePlaced c b =
     (Undefined,
      updateStatus (b\<lparr>tileCounts := AList.update c (jsdec (map_of (tileCounts b) c)) (tileCounts b),
                      tilesPlaced := tilesPlaced b + 1\<rparr>))"
  by (simp add: tilePlaced_def jsgt0_wf)

lemma tilePlaced_effect:
  assumes "wfCounts (tileCounts b)" "0 \<le> c" "c \<le> 4"
  defines "d \<equiv> (if 0 < cnt (tileCounts b) c then 1 else 0)"
  shows "wfCounts (tileCounts (snd (tilePlaced c b)))"
    and "cnt (tileCounts (snd (tilePlaced c b))) c' = cnt (tileCounts b) c' - (if c' = c then d else 0)"
    and "supplyTotal (tileCounts (snd (tilePlaced c b))) = supplyTotal (tileCounts b) - d"
    and "tilesPlaced (snd (tilePlaced c b)) = tilesPlaced b + d"
    and "tilesNeeded (snd (tilePlaced c b)) = tilesNeeded b"
    and "onDistributionComplete (snd (tilePlaced c b)) = onDistributionComplete b"
    and "statusOK b \<Longrightarrow> statusOK (snd (tilePlaced c b))"
proof -
  show "wfCounts (tileCounts (snd (tilePlaced c b)))"
    using assms by (cases "0 < cnt (tileCounts b) c") (simp_all add: tilePlaced_pos tilePlaced_zero dec_wf)
  show "cnt (tileCounts (snd (tilePlaced c b))) c' = cnt (tileCounts b) c' - (if c' = c then d else 0)"
    using assms by (cases "0 < cnt (tileCounts b) c") (simp_all add: tilePlaced_pos tilePlaced_zero dec_wf)
  show "supplyTotal (tileCounts (snd (tilePlaced c b))) = supplyTotal (tileCounts b) - d"
    using assms by (cases "0 < cnt (tileCounts b) c") (simp_all add: tilePlaced_pos tilePlaced_zero dec_wf)
  show "tilesPlaced (snd (tilePlaced c b)) = tilesPlaced b + d"
    using assms by (cases "0 < cnt (tileCounts b) c") (simp_all add: tilePlaced_pos tilePlaced_zero)
  show "tilesNeeded (snd (tilePlaced c b)) = tilesNeeded b"
    using assms by (cases "0 < cnt (tileCounts b) c") (simp_all add: tilePlaced_pos tilePlaced_zero)
  show "onDistributionComplete (snd (tilePlaced c b)) = onDistributionComplete b"
    using assms by (cases "0 < cnt (tileCounts b) c") (simp_all add: tilePlaced_pos tilePlaced_zero)
  show "statusOK b \<Longrightarrow> statusOK (snd (tilePlaced c b))"
    using assms
    by (cases "0 < cnt (tileCounts b) c")
       (simp_all add: tilePlaced_pos tilePlaced_zero statusOK_def updateStatus_idem)
qed

lemma tileReturned_effect:
  assumes "wfCounts (tileCounts b)" "0 \<le> c" "c \<le> 4"
  shows "wfCounts (tileCounts (tileReturned c b))"
    and "cnt (tileCounts (tileReturned c b)) c' = cnt (tileCounts b) c' + (if c' = c then 1 else 0)"
    and "supplyTotal (tileCounts (tileReturned c b)) = supplyTotal (tileCounts b) + 1"
    and "tilesPlaced (tileReturned c b) = tilesPlaced b - 1"
    and "tilesNeeded (tileReturned c b) = tilesNeeded b"
    and "onDistributionComplete (tileReturned c b) = onDistributionComplete b"
    and "statusOK b \<Longrightarrow> statusOK (tileReturned c b)"
  using assms
  by (simp_all add: tileReturned_def inc_wf statusOK_def updateStatus_idem)

subsection \<open>Entering the phase: the components it builds\<close>

lemma countTiles_fold:
  "wfCounts cs \<Longrightarrow>
   wfCounts (foldl (\<lambda>counts tile. if tile \<ge> 0 \<and> tile \<le> 4
                      then AList.update tile (jsinc (map_of counts tile)) counts else counts) cs bag)
   \<and> (\<forall>c. cnt (foldl (\<lambda>counts tile. if tile \<ge> 0 \<and> tile \<le> 4
                      then AList.update tile (jsinc (map_of counts tile)) counts else counts) cs bag) c
          = cnt cs c + (if 0 \<le> c \<and> c \<le> 4 then int (count_list bag c) else 0))"
proof (induction bag arbitrary: cs)
  case Nil
  then show ?case by simp
next
  case (Cons t bag)
  show ?case
  proof (cases "0 \<le> t \<and> t \<le> 4")
    case True
    with Cons.prems have w: "wfCounts (AList.update t (jsinc (map_of cs t)) cs)"
      by (simp add: inc_wf)
    from Cons.IH [OF w] True Cons.prems show ?thesis
      by (auto simp: inc_wf)
  next
    case False
    with Cons.IH [OF Cons.prems] show ?thesis by auto
  qed
qed

lemma countTilesInBag_wf: "wfCounts (countTilesInBag bag)"
  unfolding countTilesInBag_def
  by (rule countTiles_fold [THEN conjunct1]) (simp add: wfCounts_def)

lemma countTilesInBag_cnt:
  "cnt (countTilesInBag bag) c = (if 0 \<le> c \<and> c \<le> 4 then int (count_list bag c) else 0)"
proof -
  have w: "wfCounts [(0, Num 0), (1, Num 0), (2, Num 0), (3, Num 0), (4, Num 0)]"
    by (simp add: wfCounts_def)
  have "cnt [(0, Num 0), (1, Num 0), (2, Num 0), (3, Num 0), (4, Num 0)] c = 0"
    by (simp add: cnt_def)
  with countTiles_fold [OF w, of bag] show ?thesis
    by (simp add: countTilesInBag_def)
qed

lemma countTilesInBag_total: "supplyTotal (countTilesInBag bag) = colourTiles bag"
  by (simp add: supplyTotal_def colourTiles_def countTilesInBag_cnt)

lemma update_fresh: "k \<notin> fst ` set al \<Longrightarrow> AList.update k v al = al @ [(k, v)]"
  by (induction al) auto

lemma setupDropZones_factories:
  "factories (setupDropZones n h) =
     map (\<lambda>i. (int i + 1, \<lparr>factoryId = int i + 1, tiles = []\<rparr>)) [0..<n]"
proof -
  have "foldl (\<lambda>m index. AList.update (int index + 1) \<lparr>factoryId = int index + 1, tiles = []\<rparr> m)
          [] [0..<n] =
        map (\<lambda>i. (int i + 1, \<lparr>factoryId = int i + 1, tiles = []\<rparr>)) [0..<n]"
    by (induction n) (simp_all add: update_fresh image_iff)
  then show ?thesis by (simp add: setupDropZones_def)
qed

lemma setupDropZones_fields [simp]:
  "enabled (setupDropZones n h) = enabled h"
  "onTileDropped (setupDropZones n h) = onTileDropped h"
  "onTileRemoved (setupDropZones n h) = onTileRemoved h"
  by (simp_all add: setupDropZones_def)

lemma setupDropZones_OK:
  "handlerOK ((setupDropZones n new_FactoryDropHandler)\<lparr>onTileDropped := True, onTileRemoved := True\<rparr>)"
  by (simp add: handlerOK_def setupDropZones_factories list_all_iff new_FactoryDropHandler_def
        comp_def)

lemma restore_length_fold:
  "length (factory (foldl (\<lambda>gs i.
       gs\<lparr>tilebag := tilebag gs @ filter (\<lambda>tile. tile \<noteq> Null \<and> tile \<ge> 0) (factory gs ! i),
          factory := (factory gs)[i := []]\<rparr>) gs is)) = length (factory gs)"
  by (induction "is" arbitrary: gs) simp_all

lemma restoreTilesToBag_length [simp]:
  "length (factory (restoreTilesToBag Null gs)) = length (factory gs)"
  by (simp add: restoreTilesToBag_def restore_length_fold)

lemma refill_gamestate [simp]: "gamestate (refillFromDiscarded n g) = gamestate g"
  by (simp add: refillFromDiscarded_def)

lemma initOurBag_length [simp]:
  "length (factory (gamestate (initOurBag Null g))) = length (factory (gamestate g))"
  by (simp add: initOurBag_def Let_def)

lemma create_OK:
  "wfCounts (tileCounts (create bag needed b))"
  "statusOK (create bag needed b)"
  "tilesPlaced (create bag needed b) = 0"
  "tilesNeeded (create bag needed b) = needed"
  "supplyTotal (tileCounts (create bag needed b)) = colourTiles bag"
  "cnt (tileCounts (create bag needed b)) c = (if 0 \<le> c \<and> c \<le> 4 then int (count_list bag c) else 0)"
  by (simp_all add: create_def countTilesInBag_wf statusOK_updateStatus countTilesInBag_total
        countTilesInBag_cnt)

lemma updateStatus_callback:
  "updateStatus (b\<lparr>onDistributionComplete := x\<rparr>) = (updateStatus b)\<lparr>onDistributionComplete := x\<rparr>"
  by (cases "startRoundBtn b") (simp_all add: updateStatus_def Let_def)

lemma statusOK_callback: "statusOK b \<Longrightarrow> statusOK (b\<lparr>onDistributionComplete := True\<rparr>)"
  by (simp add: statusOK_def updateStatus_callback)

subsection \<open>The phase invariants: established on entry, kept by every drop and click\<close>

lemma enter_unfold:
  "enterManualDistributionPhase Null g =
     (let needed = (int (length (factory (gamestate g))) - 1) * 4;
          g2 = refillFromDiscarded needed (initOurBag Null g)
      in g2\<lparr>bagView := Some ((create (ourBag g2) needed new_BagView)\<lparr>onDistributionComplete := True\<rparr>),
            factoryDropHandler :=
              Some ((setupDropZones (length (factory (gamestate g)) - 1) new_FactoryDropHandler)
                      \<lparr>onTileDropped := True, onTileRemoved := True\<rparr>),
            manualDistributionMode := True\<rparr>)"
proof -
  have "nat (int (length (factory (gamestate g))) - 1) = length (factory (gamestate g)) - 1"
    by arith
  then show ?thesis
    by (simp add: enterManualDistributionPhase_def Let_def getRegularFactories_def)
qed

lemma placedOf_setup [simp]:
  "placedOf ((setupDropZones n h)\<lparr>onTileDropped := x, onTileRemoved := y\<rparr>) c = 0"
  by (simp add: placedOf_def setupDropZones_factories comp_def)

lemma total_setup [simp]:
  "getTotalTilesPlaced ((setupDropZones n h)\<lparr>onTileDropped := x, onTileRemoved := y\<rparr>) = 0"
  by (simp add: getTotalTilesPlaced_sum setupDropZones_factories comp_def)

lemma phaseOK_enter: "phaseOK (enterManualDistributionPhase Null g)"
  by (simp add: enter_unfold Let_def phaseOK_def create_OK statusOK_callback setupDropZones_OK
        setupDropZones_factories)

lemma bagOK_enter: "bagOK (enterManualDistributionPhase Null g)"
  by (simp add: enter_unfold Let_def bagOK_def create_OK)

lemma splice1_count:
  "i < length xs \<Longrightarrow>
   int (count_list (splice1 i xs) c) = int (count_list xs c) - (if xs ! i = c then 1 else 0)"
proof -
  assume "i < length xs"
  then have "xs = take i xs @ xs ! i # drop (Suc i) xs" by (rule id_take_nth_drop)
  then have "count_list xs c = count_list (take i xs @ xs ! i # drop (Suc i) xs) c" by simp
  then show ?thesis by (simp add: splice1_def)
qed

lemma splice1_length: "i < length xs \<Longrightarrow> length (splice1 i xs) = length xs - 1"
  by (simp add: splice1_def)

lemma splice1_list_all: "list_all P xs \<Longrightarrow> list_all P (splice1 i xs)"
  by (auto simp: splice1_def list_all_iff dest: in_set_takeD in_set_dropD)

lemma dropOn_cases [consumes 3, case_names rejected placed]:
  assumes "phaseOK g" "bagView g = Some b" "factoryDropHandler g = Some h"
  obtains (rejected) "dropOn p fid g = g"
  | (placed) s c fac where "p = Some s" "s \<noteq> []" "parseInt s = Some c" "0 \<le> c" "c \<le> 4"
      "map_of (factories h) fid = Some fac" "length (tiles fac) < 4"
      "dropOn p fid g =
         g\<lparr>factoryDropHandler := Some (withTiles fid fac (tiles fac @ [c]) h),
           bagView := Some (snd (tilePlaced c b))\<rparr>"
proof -
  from assms have cb: "onTileDropped h" by (simp add: phaseOK_def handlerOK_def)
  from cb show thesis
  proof (cases rule: handleDrop_cases [of h p fid])
    case rejected
    with assms have "dropOn p fid g = g" by (simp add: dropOn_def)
    then show thesis by (rule that(1))
  next
    case (placed s c fac)
    with assms have
      "dropOn p fid g =
         g\<lparr>factoryDropHandler := Some (withTiles fid fac (tiles fac @ [c]) h),
           bagView := Some (snd (tilePlaced c b))\<rparr>"
      by (simp add: dropOn_def onTileDroppedClosure_def)
    with placed show thesis by (intro that(2))
  qed
qed

lemma clickSlot_cases [consumes 3, case_names ignored removed]:
  assumes "phaseOK g" "bagView g = Some b" "factoryDropHandler g = Some h"
  obtains (ignored) "clickSlot fid slot g = g"
  | (removed) fac where
      "map_of (factories h) fid = Some fac" "slot < length (tiles fac)"
      "clickSlot fid slot g =
         g\<lparr>factoryDropHandler := Some (withTiles fid fac (splice1 slot (tiles fac)) h),
           bagView := Some (tileReturned (tiles fac ! slot) b)\<rparr>"
proof -
  from assms have cb: "onTileRemoved h" by (simp add: phaseOK_def handlerOK_def)
  from cb show thesis
  proof (cases rule: handleTileClick_cases [of h fid slot])
    case ignored
    with assms have "clickSlot fid slot g = g" by (simp add: clickSlot_def)
    then show thesis by (rule that(1))
  next
    case (removed fac)
    with assms have
      "clickSlot fid slot g =
         g\<lparr>factoryDropHandler := Some (withTiles fid fac (splice1 slot (tiles fac)) h),
           bagView := Some (tileReturned (tiles fac ! slot) b)\<rparr>"
      by (simp add: clickSlot_def onTileRemovedClosure_def)
    with removed show thesis by (intro that(2))
  qed
qed

lemma phaseOK_E:
  assumes "phaseOK g"
  obtains b h where "bagView g = Some b" "factoryDropHandler g = Some h"
    "wfCounts (tileCounts b)" "statusOK b" "onDistributionComplete b" "handlerOK h"
    "length (factories h) = length (factory (gamestate g)) - 1"
    "tilesNeeded b = (int (length (factory (gamestate g))) - 1) * 4"
    "factories h = [] \<longrightarrow> tilesPlaced b = 0"
  using assms by (auto simp: phaseOK_def split: option.splits)

lemma handlerOK_lookup:
  "handlerOK h \<Longrightarrow> map_of (factories h) fid = Some fac \<Longrightarrow>
   length (tiles fac) \<le> 4 \<and> list_all (\<lambda>t. 0 \<le> t \<and> t \<le> 4) (tiles fac)"
  by (drule map_of_list_all [where P = "\<lambda>kv. length (tiles (snd kv)) \<le> 4 \<and>
        list_all (\<lambda>t. 0 \<le> t \<and> t \<le> 4) (tiles (snd kv))" and k = fid and f = fac, rotated])
     (simp_all add: handlerOK_def)

lemma lookup_nonempty: "map_of al k = Some v \<Longrightarrow> al \<noteq> []"
  by auto

lemma phaseOK_dropOn: "phaseOK g \<Longrightarrow> phaseOK (dropOn p fid g)"
proof -
  assume ok: "phaseOK g"
  then obtain b h where bh: "bagView g = Some b" "factoryDropHandler g = Some h"
    and inv: "wfCounts (tileCounts b)" "statusOK b" "onDistributionComplete b" "handlerOK h"
      "length (factories h) = length (factory (gamestate g)) - 1"
      "tilesNeeded b = (int (length (factory (gamestate g))) - 1) * 4"
    by (rule phaseOK_E)
  from ok bh show ?thesis
  proof (cases rule: dropOn_cases [of g b h p fid])
    case rejected
    with ok show ?thesis by simp
  next
    case (placed s c fac)
    from inv(4) placed(6) have fac: "length (tiles fac) \<le> 4"
      "list_all (\<lambda>t. 0 \<le> t \<and> t \<le> 4) (tiles fac)"
      by (simp_all add: handlerOK_lookup)
    from inv(4) placed fac have h': "handlerOK (withTiles fid fac (tiles fac @ [c]) h)"
      by (intro withTiles_handlerOK) simp_all
    from placed(6) have ne: "factories (withTiles fid fac (tiles fac @ [c]) h) \<noteq> []"
      using withTiles_lookup [of fid fac "tiles fac @ [c]" h] by (auto dest: lookup_nonempty)
    from placed inv h' ne show ?thesis
      by (simp add: phaseOK_def tilePlaced_effect withTiles_length)
  qed
qed

lemma phaseOK_clickSlot: "phaseOK g \<Longrightarrow> phaseOK (clickSlot fid slot g)"
proof -
  assume ok: "phaseOK g"
  then obtain b h where bh: "bagView g = Some b" "factoryDropHandler g = Some h"
    and inv: "wfCounts (tileCounts b)" "statusOK b" "onDistributionComplete b" "handlerOK h"
      "length (factories h) = length (factory (gamestate g)) - 1"
      "tilesNeeded b = (int (length (factory (gamestate g))) - 1) * 4"
    by (rule phaseOK_E)
  from ok bh show ?thesis
  proof (cases rule: clickSlot_cases [of g b h fid slot])
    case ignored
    with ok show ?thesis by simp
  next
    case (removed fac)
    from inv(4) removed(1) have fac: "length (tiles fac) \<le> 4"
      "list_all (\<lambda>t. 0 \<le> t \<and> t \<le> 4) (tiles fac)"
      by (simp_all add: handlerOK_lookup)
    from fac(2) removed(2) have col: "0 \<le> tiles fac ! slot" "tiles fac ! slot \<le> 4"
      by (simp_all add: list_all_length)
    from inv(4) removed fac have h': "handlerOK (withTiles fid fac (splice1 slot (tiles fac)) h)"
      by (intro withTiles_handlerOK) (simp_all add: splice1_length splice1_list_all)
    from removed(1) have ne: "factories (withTiles fid fac (splice1 slot (tiles fac)) h) \<noteq> []"
      using withTiles_lookup [of fid fac "splice1 slot (tiles fac)" h] by (auto dest: lookup_nonempty)
    from removed inv h' ne col show ?thesis
      by (simp add: phaseOK_def tileReturned_effect withTiles_length)
  qed
qed

lemma bagOK_dropOn: "phaseOK g \<Longrightarrow> bagOK g \<Longrightarrow> bagOK (dropOn p fid g)"
proof -
  assume ok: "phaseOK g" and bag: "bagOK g"
  from ok obtain b h where bh: "bagView g = Some b" "factoryDropHandler g = Some h"
    and inv: "wfCounts (tileCounts b)"
    by (rule phaseOK_E)
  from ok bh show ?thesis
  proof (cases rule: dropOn_cases [of g b h p fid])
    case rejected
    with bag show ?thesis by simp
  next
    case (placed s c fac)
    from bag bh placed inv show ?thesis
      by (simp add: bagOK_def tilePlaced_effect withTiles_placedOf)
  qed
qed

lemma bagOK_clickSlot: "phaseOK g \<Longrightarrow> bagOK g \<Longrightarrow> bagOK (clickSlot fid slot g)"
proof -
  assume ok: "phaseOK g" and bag: "bagOK g"
  from ok obtain b h where bh: "bagView g = Some b" "factoryDropHandler g = Some h"
    and inv: "wfCounts (tileCounts b)" "handlerOK h"
    by (rule phaseOK_E)
  from ok bh show ?thesis
  proof (cases rule: clickSlot_cases [of g b h fid slot])
    case ignored
    with bag show ?thesis by simp
  next
    case (removed fac)
    from inv(2) removed(1) have fac: "list_all (\<lambda>t. 0 \<le> t \<and> t \<le> 4) (tiles fac)"
      by (simp_all add: handlerOK_lookup)
    from fac removed(2) have col: "0 \<le> tiles fac ! slot" "tiles fac ! slot \<le> 4"
      by (simp_all add: list_all_length)
    from bag bh removed inv col show ?thesis
      by (simp add: bagOK_def tileReturned_effect withTiles_placedOf splice1_count)
  qed
qed

subsection \<open>Runs of events\<close>

lemma run_Nil [simp]: "run [] g = g"
  by (simp add: run_def)

lemma run_Cons [simp]: "run (ev # evs) g = run evs (step ev g)"
  by (simp add: run_def)

lemma run_append: "run (evs @ evs') g = run evs' (run evs g)"
  by (simp add: run_def)

lemma parseInt_toString: "0 \<le> c \<Longrightarrow> c \<le> 4 \<Longrightarrow> parseInt (toString c) = Some c"
  by (erule (1) colourE) (simp_all add: toString_def natToString.simps parseInt_eval)

lemma toString_nonempty: "0 \<le> c \<Longrightarrow> c \<le> 4 \<Longrightarrow> toString c \<noteq> []"
  by (erule (1) colourE) (simp_all add: toString_def natToString.simps)

lemma dropOn_outside: "factoryDropHandler g = None \<Longrightarrow> dropOn p fid g = g"
  by (simp add: dropOn_def)

lemma clickSlot_outside: "factoryDropHandler g = None \<Longrightarrow> clickSlot fid slot g = g"
  by (simp add: clickSlot_def)

lemma dragFromBag_cases:
  "dragFromBag c fid g = g \<or> dragFromBag c fid g = dropOn (Some (toString c)) fid g"
  by (simp add: dragFromBag_def handleDragStart_def split: option.splits)

lemma apply_outside: "factoryDropHandler g = None \<Longrightarrow> applyManualDistribution g = g"
  by (simp add: applyManualDistribution_def)

lemma apply_ends:
  "factoryDropHandler g = Some h \<Longrightarrow>
   bagView (applyManualDistribution g) = None \<and>
   factoryDropHandler (applyManualDistribution g) = None"
  by (simp add: applyManualDistribution_def Let_def)

lemma clickStart_cases: "clickStart g = g \<or> clickStart g = applyManualDistribution g"
  by (simp add: clickStart_def split: option.splits)

lemma tracked_step: "tracked g \<Longrightarrow> tracked (step ev g)"
proof (cases ev)
  case (DragFromBag c fid)
  assume t: "tracked g"
  from dragFromBag_cases [of c fid g] t DragFromBag show ?thesis
    by (auto simp: tracked_def phaseOK_dropOn bagOK_dropOn dropOn_outside)
next
  case (Drop p fid)
  assume "tracked g"
  with Drop show ?thesis
    by (auto simp: tracked_def phaseOK_dropOn bagOK_dropOn dropOn_outside)
next
  case (ClickSlot fid slot)
  assume "tracked g"
  with ClickSlot show ?thesis
    by (auto simp: tracked_def phaseOK_clickSlot bagOK_clickSlot clickSlot_outside)
next
  case ClickStart
  assume t: "tracked g"
  show ?thesis
  proof (cases "factoryDropHandler g")
    case None
    with clickStart_cases [of g] t ClickStart show ?thesis
      by (auto simp: apply_outside)
  next
    case (Some h)
    with clickStart_cases [of g] t ClickStart apply_ends [OF Some] show ?thesis
      by (auto simp: tracked_def)
  qed
qed

lemma tracked_run: "tracked g \<Longrightarrow> tracked (run evs g)"
  by (induction evs arbitrary: g) (simp_all add: tracked_step)

lemma tracked_enter: "tracked (enterManualDistributionPhase Null g)"
  by (simp add: tracked_def phaseOK_enter bagOK_enter)

lemma reachable_phaseOK:
  "bagView (run evs (enterManualDistributionPhase Null g)) = Some b \<Longrightarrow>
   phaseOK (run evs (enterManualDistributionPhase Null g))
   \<and> bagOK (run evs (enterManualDistributionPhase Null g))"
  using tracked_run [OF tracked_enter, of evs Null g] by (auto simp: tracked_def)

lemma reachable_handler_phaseOK:
  "factoryDropHandler (run evs (enterManualDistributionPhase Null g)) = Some h \<Longrightarrow>
   phaseOK (run evs (enterManualDistributionPhase Null g))
   \<and> bagOK (run evs (enterManualDistributionPhase Null g))"
  using tracked_run [OF tracked_enter, of evs Null g] by (auto simp: tracked_def)

subsection \<open>A placement and its removal\<close>

lemma handleDrop_placed:
  "enabled h \<Longrightarrow> onTileDropped h \<Longrightarrow> s \<noteq> [] \<Longrightarrow> parseInt s = Some c \<Longrightarrow> 0 \<le> c \<Longrightarrow> c \<le> 4 \<Longrightarrow>
   map_of (factories h) fid = Some fac \<Longrightarrow> length (tiles fac) < 4 \<Longrightarrow>
   handleDrop (Some s) fid h = (withTiles fid fac (tiles fac @ [c]) h, Some (fid, c))"
  by (simp add: handleDrop_def addTileToFactory_def withTiles_def)

lemma handleTileClick_removed:
  "enabled h \<Longrightarrow> onTileRemoved h \<Longrightarrow> map_of (factories h) fid = Some fac \<Longrightarrow>
   slot < length (tiles fac) \<Longrightarrow>
   handleTileClick fid slot h =
     (withTiles fid fac (splice1 slot (tiles fac)) h, Some (fid, tiles fac ! slot))"
  by (simp add: handleTileClick_def removeTileFromFactory_def withTiles_def Let_def)

lemma dragFromBag_placed:
  assumes "phaseOK g" "bagView g = Some b" "factoryDropHandler g = Some h"
    "0 \<le> c" "c \<le> 4" "0 < cnt (tileCounts b) c"
    "map_of (factories h) fid = Some fac" "length (tiles fac) < 4"
  shows "dragFromBag c fid g =
           g\<lparr>factoryDropHandler := Some (withTiles fid fac (tiles fac @ [c]) h),
             bagView := Some (snd (tilePlaced c b))\<rparr>"
proof -
  from assms(1-3) have w: "wfCounts (tileCounts b)" and h: "enabled h" "onTileDropped h"
    by (auto elim!: phaseOK_E simp: handlerOK_def)
  from w assms have "handleDragStart c b = Some (toString c)"
    by (simp add: handleDragStart_def jsle0_wf)
  moreover from h assms have
    "handleDrop (Some (toString c)) fid h = (withTiles fid fac (tiles fac @ [c]) h, Some (fid, c))"
    by (intro handleDrop_placed) (simp_all add: parseInt_toString toString_nonempty)
  ultimately show ?thesis using assms
    by (simp add: dragFromBag_def dropOn_def onTileDroppedClosure_def)
qed

lemma updateStatus_button:
  "startRoundBtn b \<noteq> None \<Longrightarrow> updateStatus (b\<lparr>startRoundBtn := Some x\<rparr>) = updateStatus b"
  by (auto simp: updateStatus_def Let_def)

lemma updateStatus_inner:
  "startRoundBtn b \<noteq> None \<Longrightarrow>
   updateStatus ((updateStatus b)\<lparr>tileCounts := cs, tilesPlaced := tp\<rparr>) =
   updateStatus (b\<lparr>tileCounts := cs, tilesPlaced := tp\<rparr>)"
  by (auto simp: updateStatus_def Let_def)

lemma update_back:
  "wfCounts counts \<Longrightarrow> 0 \<le> c \<Longrightarrow> c \<le> 4 \<Longrightarrow>
   AList.update c (jsinc (Some (jsdec (map_of counts c)))) counts = counts"
  by (erule wfCountsE, erule (1) colourE) simp_all

lemma bag_roundtrip:
  assumes "wfCounts (tileCounts b)" "statusOK b" "0 \<le> c" "c \<le> 4" "0 < cnt (tileCounts b) c"
  shows "tileReturned c (snd (tilePlaced c b)) = b"
proof -
  from assms have s: "startRoundBtn b \<noteq> None" "updateStatus b = b"
    by (simp_all add: statusOK_def)
  from assms s show ?thesis
    by (simp add: tilePlaced_pos tileReturned_def updateStatus_inner update_conv' update_back)
qed

lemma splice1_last [simp]: "splice1 (length xs) (xs @ [x]) = xs"
  by (simp add: splice1_def)

lemma jsgt0_valid:
  "wfCounts counts \<Longrightarrow> jsgt0 (map_of counts c) \<Longrightarrow> 0 \<le> c \<and> c \<le> 4 \<and> 0 < cnt counts c"
  by (erule wfCountsE) (auto simp: cnt_def split: if_splits)

lemma dropOn_placed:
  assumes "phaseOK g" "bagView g = Some b" "factoryDropHandler g = Some h"
    "s \<noteq> []" "parseInt s = Some c" "0 \<le> c" "c \<le> 4"
    "map_of (factories h) fid = Some fac" "length (tiles fac) < 4"
  shows "dropOn (Some s) fid g =
           g\<lparr>factoryDropHandler := Some (withTiles fid fac (tiles fac @ [c]) h),
             bagView := Some (snd (tilePlaced c b))\<rparr>"
proof -
  from assms(1-3) have h: "enabled h" "onTileDropped h"
    by (auto elim!: phaseOK_E simp: handlerOK_def)
  from h assms have
    "handleDrop (Some s) fid h = (withTiles fid fac (tiles fac @ [c]) h, Some (fid, c))"
    by (intro handleDrop_placed) simp_all
  with assms show ?thesis
    by (simp add: dropOn_def onTileDroppedClosure_def)
qed

lemma clickSlot_last:
  assumes "phaseOK g" "bagView g = Some b" "factoryDropHandler g = Some h"
    "0 \<le> c" "c \<le> 4" "0 < cnt (tileCounts b) c"
    "map_of (factories h) fid = Some fac" "length (tiles fac) < 4"
  shows "clickSlot fid (length (tiles fac))
           (g\<lparr>factoryDropHandler := Some (withTiles fid fac (tiles fac @ [c]) h),
              bagView := Some (snd (tilePlaced c b))\<rparr>) = g"
proof -
  from assms(1-3) have w: "wfCounts (tileCounts b)" "statusOK b"
    and h: "enabled h" "onTileRemoved h"
    by (auto elim!: phaseOK_E simp: handlerOK_def)
  let ?h1 = "withTiles fid fac (tiles fac @ [c]) h"
  have l: "map_of (factories ?h1) fid = Some (fac\<lparr>tiles := tiles fac @ [c]\<rparr>)"
    by (rule withTiles_lookup)
  from h have "handleTileClick fid (length (tiles fac)) ?h1 =
      (withTiles fid (fac\<lparr>tiles := tiles fac @ [c]\<rparr>)
         (splice1 (length (tiles fac)) (tiles (fac\<lparr>tiles := tiles fac @ [c]\<rparr>))) ?h1,
       Some (fid, tiles (fac\<lparr>tiles := tiles fac @ [c]\<rparr>) ! length (tiles fac)))"
    by (intro handleTileClick_removed [OF _ _ l]) simp_all
  then have "handleTileClick fid (length (tiles fac)) ?h1 = (h, Some (fid, c))"
    using assms(7) by (simp add: withTiles_restore)
  with w assms show ?thesis
    by (simp add: clickSlot_def onTileRemovedClosure_def bag_roundtrip)
qed

subsection \<open>The accounted quantity under the gestures\<close>

lemma accounted_phase:
  "phaseOK g \<Longrightarrow> bagView g = Some b \<Longrightarrow> factoryDropHandler g = Some h \<Longrightarrow>
   accounted g =
     Some (Num (supplyTotal (tileCounts b) + getTotalTilesPlaced h + int (length (discardedTiles g))))"
  by (auto elim!: phaseOK_E simp: accounted_def totalAvailable_wf)

lemma accounted_dragFromBag:
  assumes ok: "phaseOK g"
  shows "accounted (dragFromBag c fid g) = accounted g"
proof -
  from ok obtain b h where bh: "bagView g = Some b" "factoryDropHandler g = Some h"
    and w: "wfCounts (tileCounts b)"
    by (rule phaseOK_E)
  show ?thesis
  proof (cases "0 \<le> c \<and> c \<le> 4 \<and> 0 < cnt (tileCounts b) c")
    case False
    with bh w have "dragFromBag c fid g = g"
      by (auto simp: dragFromBag_def handleDragStart_def jsle0_wf)
    then show ?thesis by simp
  next
    case True
    with bh w have d: "dragFromBag c fid g = dropOn (Some (toString c)) fid g"
      by (simp add: dragFromBag_def handleDragStart_def jsle0_wf)
    from ok bh show ?thesis
    proof (cases rule: dropOn_cases [of g b h "Some (toString c)" fid])
      case rejected
      with d show ?thesis by simp
    next
      case (placed s c' fac)
      from placed(1,3) have "parseInt (toString c) = Some c'" by simp
      with True have c': "c' = c" by (simp add: parseInt_toString)
      let ?g' = "g\<lparr>factoryDropHandler := Some (withTiles fid fac (tiles fac @ [c]) h),
                   bagView := Some (snd (tilePlaced c b))\<rparr>"
      from placed c' d have e: "dragFromBag c fid g = ?g'" by simp
      from ok have "phaseOK (dropOn (Some (toString c)) fid g)" by (rule phaseOK_dropOn)
      with d e have ok': "phaseOK ?g'" by simp
      have "accounted ?g' =
              Some (Num (supplyTotal (tileCounts (snd (tilePlaced c b)))
                         + getTotalTilesPlaced (withTiles fid fac (tiles fac @ [c]) h)
                         + int (length (discardedTiles ?g'))))"
        by (rule accounted_phase [OF ok']) simp_all
      with True w placed(6) accounted_phase [OF ok bh] e show ?thesis
        by (simp add: tilePlaced_effect withTiles_total)
    qed
  qed
qed

lemma accounted_clickSlot:
  assumes ok: "phaseOK g"
  shows "accounted (clickSlot fid slot g) = accounted g"
proof -
  from ok obtain b h where bh: "bagView g = Some b" "factoryDropHandler g = Some h"
    and w: "wfCounts (tileCounts b)" and hok: "handlerOK h"
    by (rule phaseOK_E)
  from ok bh show ?thesis
  proof (cases rule: clickSlot_cases [of g b h fid slot])
    case ignored
    then show ?thesis by simp
  next
    case (removed fac)
    let ?g' = "g\<lparr>factoryDropHandler := Some (withTiles fid fac (splice1 slot (tiles fac)) h),
                 bagView := Some (tileReturned (tiles fac ! slot) b)\<rparr>"
    from hok removed(1) have "list_all (\<lambda>t. 0 \<le> t \<and> t \<le> 4) (tiles fac)"
      by (simp add: handlerOK_lookup)
    with removed(2) have col: "0 \<le> tiles fac ! slot" "tiles fac ! slot \<le> 4"
      by (simp_all add: list_all_length)
    from ok have "phaseOK (clickSlot fid slot g)" by (rule phaseOK_clickSlot)
    with removed have ok': "phaseOK ?g'" by simp
    have "accounted ?g' =
            Some (Num (supplyTotal (tileCounts (tileReturned (tiles fac ! slot) b))
                       + getTotalTilesPlaced (withTiles fid fac (splice1 slot (tiles fac)) h)
                       + int (length (discardedTiles ?g'))))"
      by (rule accounted_phase [OF ok']) simp_all
    with w col removed accounted_phase [OF ok bh] show ?thesis
      by (simp add: tileReturned_effect withTiles_total splice1_length)
  qed
qed

lemma accounted_dropOn:
  assumes ok: "phaseOK g" and sup: "supplied g (Drop p fid)"
  shows "accounted (dropOn p fid g) = accounted g"
proof -
  from ok obtain b h where bh: "bagView g = Some b" "factoryDropHandler g = Some h"
    and w: "wfCounts (tileCounts b)"
    by (rule phaseOK_E)
  from ok bh show ?thesis
  proof (cases rule: dropOn_cases [of g b h p fid])
    case rejected
    then show ?thesis by simp
  next
    case (placed s c fac)
    with sup bh have "jsgt0 (map_of (tileCounts b) c)"
      by (simp add: rejectedPayload_def)
    with w have pos: "0 < cnt (tileCounts b) c" by (simp add: jsgt0_valid)
    let ?g' = "g\<lparr>factoryDropHandler := Some (withTiles fid fac (tiles fac @ [c]) h),
                 bagView := Some (snd (tilePlaced c b))\<rparr>"
    from ok have "phaseOK (dropOn p fid g)" by (rule phaseOK_dropOn)
    with placed have ok': "phaseOK ?g'" by simp
    have "accounted ?g' =
            Some (Num (supplyTotal (tileCounts (snd (tilePlaced c b)))
                       + getTotalTilesPlaced (withTiles fid fac (tiles fac @ [c]) h)
                       + int (length (discardedTiles ?g'))))"
      by (rule accounted_phase [OF ok']) simp_all
    with pos w placed accounted_phase [OF ok bh] show ?thesis
      by (simp add: tilePlaced_effect withTiles_total)
  qed
qed

lemma accounted_supplied:
  "phaseOK g \<Longrightarrow> suppliedRun g evs \<Longrightarrow> accounted (run evs g) = accounted g"
proof (induction evs arbitrary: g)
  case Nil
  then show ?case by simp
next
  case (Cons ev evs)
  from Cons.prems have sup: "supplied g ev" "suppliedRun (step ev g) evs" by simp_all
  from sup(1) Cons.prems(1) have "phaseOK (step ev g) \<and> accounted (step ev g) = accounted g"
  proof (cases ev)
    case (DragFromBag c fid)
    with Cons.prems(1) dragFromBag_cases [of c fid g] show ?thesis
      by (auto simp: accounted_dragFromBag phaseOK_dropOn)
  next
    case (Drop p fid)
    with Cons.prems(1) sup(1) show ?thesis
      by (simp add: accounted_dropOn phaseOK_dropOn)
  next
    case (ClickSlot fid slot)
    with Cons.prems(1) show ?thesis
      by (simp add: accounted_clickSlot phaseOK_clickSlot)
  qed simp_all
  with Cons.IH [of "step ev g"] sup(2) show ?case by simp
qed

lemma accounted_enter:
  "accounted (enterManualDistributionPhase Null g) =
     Some (Num (colourTiles (ourBag (enterManualDistributionPhase Null g))
                + int (length (discardedTiles (enterManualDistributionPhase Null g)))))"
  by (simp add: enter_unfold Let_def accounted_def totalAvailable_wf create_OK)

subsection \<open>What a drop calls\<close>




subsection \<open>Bags of colours\<close>

lemma colourTiles_length: "list_all isColour xs \<Longrightarrow> colourTiles xs = int (length xs)"
  by (induction xs) (auto simp: colourTiles_def isColour_def)


lemma initOurBag_discard [simp]: "discardedTiles (initOurBag Null g) = discardedTiles g"
  by (simp add: initOurBag_def Let_def)

subsection \<open>Applying the distribution: configuration, factory writes, bag\<close>

lemma isColour_fun: "isColour = (\<lambda>t. 0 \<le> t \<and> t \<le> 4)"
  by (auto simp: isColour_def fun_eq_iff)

lemma concat_singletons:
  "\<forall>x \<in> set xs. F x = [G x] \<Longrightarrow> concat (map F xs) = map G xs"
  by (induction xs) simp_all

lemma sum_list_zero: "\<forall>x \<in> set xs. f x = 0 \<Longrightarrow> (\<Sum>x\<leftarrow>xs. f x) = 0" for f :: "'a \<Rightarrow> int"
  by (induction xs) simp_all

lemma sum_list_int_nonneg: "(\<Sum>x\<leftarrow>xs. int (f x)) \<ge> 0"
  by (induction xs) simp_all

lemma config_lookup:
  assumes "distinct (map fst al)"
  shows "concat (map ((\<lambda>id. case map_of al id of None \<Rightarrow> [] | Some fac \<Rightarrow> [tiles fac]) \<circ> fst) al)
     = map (\<lambda>kv. tiles (snd kv)) al"
  using assms
  by (intro concat_singletons) (auto simp: map_of_eq_Some_iff [THEN iffD2])

lemma keys_sorted: "sorted (map (\<lambda>i. int i + 1) [0..<n])"
  by (induction n) (simp_all add: sorted_append)

lemma keys_distinct: "distinct (map (\<lambda>i. int i + 1) [0..<n])"
  by (simp add: distinct_map inj_on_def)

lemma getFactoryConfiguration_ordered:
  "handlerOK h \<Longrightarrow> getFactoryConfiguration h = map (\<lambda>kv. tiles (snd kv)) (factories h)"
proof -
  assume "handlerOK h"
  then have k: "map fst (factories h) = map (\<lambda>i. int i + 1) [0..<length (factories h)]"
    by (simp add: handlerOK_def)
  then have "sorted (map fst (factories h))" "distinct (map fst (factories h))"
    using keys_sorted [of "length (factories h)"] keys_distinct [of "length (factories h)"]
    by simp_all
  then show ?thesis
    by (simp add: getFactoryConfiguration_def Let_def sorted_sort_id config_lookup)
qed

lemma writes_nth:
  "m \<le> length config \<Longrightarrow> m < length fs0 \<Longrightarrow>
   length (foldl (\<lambda>fs index. arraySet fs (index + 1) (config ! index)) fs0 [0..<m]) = length fs0
   \<and> (\<forall>j < length fs0.
        foldl (\<lambda>fs index. arraySet fs (index + 1) (config ! index)) fs0 [0..<m] ! j
          = (if 1 \<le> j \<and> j \<le> m then config ! (j - 1) else fs0 ! j))"
proof (induction m)
  case 0
  then show ?case by simp
next
  case (Suc m)
  then have ih: "length (foldl (\<lambda>fs index. arraySet fs (index + 1) (config ! index)) fs0 [0..<m]) = length fs0"
    "\<forall>j < length fs0.
        foldl (\<lambda>fs index. arraySet fs (index + 1) (config ! index)) fs0 [0..<m] ! j
          = (if 1 \<le> j \<and> j \<le> m then config ! (j - 1) else fs0 ! j)"
    by simp_all
  from Suc.prems ih show ?case
    by (auto simp: arraySet_def nth_list_update)
qed

lemma count_remove1:
  "count_list (remove1 x xs) c = count_list xs c - (if x = c then 1 else 0)"
  by (induction xs) auto

lemma count_fold_remove1:
  "count_list (foldl (\<lambda>bag t. remove1 t bag) bag ts) c = count_list bag c - count_list ts c"
  by (induction ts arbitrary: bag) (auto simp: count_remove1)

lemma count_fold_fold_remove1:
  "count_list (foldl (\<lambda>bag fac. foldl (\<lambda>bag t. remove1 t bag) bag fac) bag config) c
     = count_list bag c - count_list (concat config) c"
  by (induction config arbitrary: bag) (auto simp: count_fold_remove1)

lemma count_concat_tiles:
  "int (count_list (concat (map (\<lambda>kv. tiles (snd kv)) al)) c)
     = (\<Sum>kv\<leftarrow>al. int (count_list (tiles (snd kv)) c))"
  by (induction al) simp_all

lemma start_enabled:
  assumes "wfCounts (tileCounts b)" "statusOK b" "startRoundBtn b = Some False"
  shows "supplyTotal (tileCounts b) = 0 \<or> tilesPlaced b = tilesNeeded b"
proof -
  from assms(2) have "startRoundBtn (updateStatus b) = startRoundBtn b"
    by (simp add: statusOK_def)
  with assms(1,3) show ?thesis
    by (auto simp: updateStatus_def Let_def totalAvailable_wf min_def split: if_splits)
qed

lemma total_by_colour:
  "list_all (\<lambda>kv. length (tiles (snd kv)) \<le> 4 \<and> list_all (\<lambda>t. 0 \<le> t \<and> t \<le> 4) (tiles (snd kv))) al \<Longrightarrow>
   (\<Sum>kv\<leftarrow>al. int (length (tiles (snd kv))))
     = (\<Sum>c\<leftarrow>[0, 1, 2, 3, 4]. \<Sum>kv\<leftarrow>al. int (count_list (tiles (snd kv)) c))
   \<and> (\<Sum>kv\<leftarrow>al. int (length (tiles (snd kv)))) \<le> 4 * int (length al)"
proof (induction al)
  case Nil
  then show ?case by simp
next
  case (Cons kv al)
  then have "list_all isColour (tiles (snd kv))" by (simp add: isColour_fun)
  then have "int (length (tiles (snd kv))) = colourTiles (tiles (snd kv))"
    by (simp add: colourTiles_length)
  with Cons show ?case by (simp add: colourTiles_def)
qed

lemma placedOf_nonneg: "0 \<le> placedOf h c"
  by (simp add: placedOf_def sum_list_int_nonneg)

lemma count_other:
  "list_all (\<lambda>t. 0 \<le> t \<and> t \<le> 4) xs \<Longrightarrow> \<not> (0 \<le> c \<and> c \<le> 4) \<Longrightarrow> count_list xs c = 0"
  by (induction xs) auto

lemma placedOf_other:
  "handlerOK h \<Longrightarrow> \<not> (0 \<le> c \<and> c \<le> 4) \<Longrightarrow> placedOf h c = 0"
proof -
  assume "handlerOK h" and c: "\<not> (0 \<le> c \<and> c \<le> 4)"
  then have "\<forall>kv \<in> set (factories h). list_all (\<lambda>t. 0 \<le> t \<and> t \<le> 4) (tiles (snd kv))"
    by (simp add: handlerOK_def list_all_iff)
  with c have "\<forall>kv \<in> set (factories h). int (count_list (tiles (snd kv)) c) = 0"
    by (simp add: count_other)
  then show ?thesis by (simp add: placedOf_def sum_list_zero)
qed

lemma reconcile_arith:
  fixes B0 B1 B2 B3 B4 P0 P1 P2 P3 P4 n :: nat and N0 N1 N2 N3 N4 tp needed :: int
  assumes "int B0 \<le> N0 + int P0" "int B1 \<le> N1 + int P1" "int B2 \<le> N2 + int P2"
    "int B3 \<le> N3 + int P3" "int B4 \<le> N4 + int P4"
    and "0 \<le> N0" "0 \<le> N1" "0 \<le> N2" "0 \<le> N3" "0 \<le> N4"
    and "N0 + N1 + N2 + N3 + N4 + tp = int B0 + int B1 + int B2 + int B3 + int B4"
    and "N0 + N1 + N2 + N3 + N4 = 0 \<or> tp = needed"
    and "int P0 + int P1 + int P2 + int P3 + int P4 \<le> 4 * int n"
    and "needed = 4 * int n \<or> (n = 0 \<and> tp = 0)"
  shows "int (B0 - P0) = N0 \<and> int (B1 - P1) = N1 \<and> int (B2 - P2) = N2
       \<and> int (B3 - P3) = N3 \<and> int (B4 - P4) = N4"
proof -
  have "(N0 = 0 \<and> N1 = 0 \<and> N2 = 0 \<and> N3 = 0 \<and> N4 = 0) \<or>
        (int B0 = N0 + int P0 \<and> int B1 = N1 + int P1 \<and> int B2 = N2 + int P2
         \<and> int B3 = N3 + int P3 \<and> int B4 = N4 + int P4)"
    using assms by linarith
  then show ?thesis
  proof
    assume z: "N0 = 0 \<and> N1 = 0 \<and> N2 = 0 \<and> N3 = 0 \<and> N4 = 0"
    with assms(1-5) show ?thesis by simp
  next
    assume "int B0 = N0 + int P0 \<and> int B1 = N1 + int P1 \<and> int B2 = N2 + int P2
         \<and> int B3 = N3 + int P3 \<and> int B4 = N4 + int P4"
    with assms(6-10) show ?thesis by linarith
  qed
qed

lemma apply_unfold:
  assumes "factoryDropHandler g = Some h" "handlerOK h"
  shows "applyManualDistribution g =
     g\<lparr>gamestate :=
         getMoves ((gamestate g)
           \<lparr>factory := foldl (\<lambda>fs index. arraySet fs (index + 1)
                                 (map (\<lambda>kv. tiles (snd kv)) (factories h) ! index))
                            (factory (gamestate g)) [0..<length (factories h)],
            tilebag := foldl (\<lambda>bag fac. foldl (\<lambda>bag tileColor. remove1 tileColor bag) bag fac)
                             (ourBag g) (map (\<lambda>kv. tiles (snd kv)) (factories h))\<rparr>),
       ourBag := foldl (\<lambda>bag fac. foldl (\<lambda>bag tileColor. remove1 tileColor bag) bag fac)
                       (ourBag g) (map (\<lambda>kv. tiles (snd kv)) (factories h)),
       bagView := None, factoryDropHandler := None, manualDistributionMode := False\<rparr>"
  using assms
  by (simp add: applyManualDistribution_def Let_def getFactoryConfiguration_ordered)

lemma apply_factories:
  assumes "factoryDropHandler g = Some h" "handlerOK h"
    "length (factories h) = length (factory (gamestate g)) - 1"
  shows "length (factory (gamestate (applyManualDistribution g))) = length (factory (gamestate g))"
    and "factory (gamestate g) \<noteq> [] \<Longrightarrow>
         factory (gamestate (applyManualDistribution g)) ! 0 = factory (gamestate g) ! 0"
    and "map_of (factories h) fid = Some fac \<Longrightarrow>
         factory (gamestate (applyManualDistribution g)) ! nat fid = tiles fac"
    and "movesComputedFrom (gamestate (applyManualDistribution g))
         = factory (gamestate (applyManualDistribution g))"
proof -
  let ?al = "factories h"
  let ?config = "map (\<lambda>kv. tiles (snd kv)) ?al"
  let ?fs0 = "factory (gamestate g)"
  let ?FS = "foldl (\<lambda>fs index. arraySet fs (index + 1) (?config ! index)) ?fs0 [0..<length ?al]"
  have FS: "factory (gamestate (applyManualDistribution g)) = ?FS"
    and MV: "movesComputedFrom (gamestate (applyManualDistribution g)) = ?FS"
    by (simp_all add: apply_unfold [OF assms(1,2)] getMoves_def)
  have W: "length ?FS = length ?fs0
      \<and> (\<forall>j < length ?fs0. ?FS ! j = (if 1 \<le> j \<and> j \<le> length ?al then ?config ! (j - 1) else ?fs0 ! j))"
  proof (cases "?al = []")
    case True
    then show ?thesis by simp
  next
    case False
    with assms(3) have "length ?al < length ?fs0" by (cases ?al) auto
    then show ?thesis
      using writes_nth [of "length ?al" ?config ?fs0] by simp
  qed
  from W FS show "length (factory (gamestate (applyManualDistribution g))) = length ?fs0"
    by simp
  from W FS show "?fs0 \<noteq> [] \<Longrightarrow> factory (gamestate (applyManualDistribution g)) ! 0 = ?fs0 ! 0"
    by simp
  from FS MV show "movesComputedFrom (gamestate (applyManualDistribution g))
         = factory (gamestate (applyManualDistribution g))"
    by simp
  show "factory (gamestate (applyManualDistribution g)) ! nat fid = tiles fac"
    if m: "map_of ?al fid = Some fac"
  proof -
    from m have "(fid, fac) \<in> set ?al" by (rule map_of_SomeD)
    then obtain i where i: "i < length ?al" "?al ! i = (fid, fac)"
      by (auto simp: in_set_conv_nth)
    from assms(2) have "map fst ?al = map (\<lambda>i. int i + 1) [0..<length ?al]"
      by (simp add: handlerOK_def)
    then have "map fst ?al ! i = map (\<lambda>i. int i + 1) [0..<length ?al] ! i" by simp
    with i have fid: "fid = int i + 1" by simp
    from i assms(3) have "Suc i < length ?fs0" by arith
    with W i have "?FS ! Suc i = ?config ! i" by simp
    with i fid FS show ?thesis by (simp add: nat_add_distrib)
  qed
qed

lemma apply_bag:
  assumes ok: "phaseOK g" and bag: "bagOK g"
    and bh: "bagView g = Some b" "factoryDropHandler g = Some h"
    and start: "startRoundBtn b = Some False"
  shows "0 \<le> c \<and> c \<le> 4 \<Longrightarrow>
           int (count_list (tilebag (gamestate (applyManualDistribution g))) c) = cnt (tileCounts b) c"
    and "\<not> (0 \<le> c \<and> c \<le> 4) \<Longrightarrow>
           count_list (tilebag (gamestate (applyManualDistribution g))) c = count_list (ourBag g) c"
    and "ourBag (applyManualDistribution g) = tilebag (gamestate (applyManualDistribution g))"
proof -
  from ok bh have w: "wfCounts (tileCounts b)" and st: "statusOK b" and hok: "handlerOK h"
    and len: "length (factories h) = length (factory (gamestate g)) - 1"
    and need: "tilesNeeded b = (int (length (factory (gamestate g))) - 1) * 4"
    and nil: "factories h = [] \<longrightarrow> tilesPlaced b = 0"
    by (auto elim!: phaseOK_E)
  let ?placed = "concat (map (\<lambda>kv. tiles (snd kv)) (factories h))"
  have tb: "tilebag (gamestate (applyManualDistribution g))
            = foldl (\<lambda>bag fac. foldl (\<lambda>bag tileColor. remove1 tileColor bag) bag fac)
                    (ourBag g) (map (\<lambda>kv. tiles (snd kv)) (factories h))"
    and ob: "ourBag (applyManualDistribution g) = tilebag (gamestate (applyManualDistribution g))"
    by (simp_all add: apply_unfold [OF bh(2) hok] getMoves_def)
  have cnt: "count_list (tilebag (gamestate (applyManualDistribution g))) c
             = count_list (ourBag g) c - count_list ?placed c" for c
    by (simp add: tb count_fold_fold_remove1)
  have pl: "int (count_list ?placed c) = placedOf h c" for c
    by (simp add: placedOf_def count_concat_tiles)
  from ob show "ourBag (applyManualDistribution g) = tilebag (gamestate (applyManualDistribution g))" .
  show "count_list (tilebag (gamestate (applyManualDistribution g))) c = count_list (ourBag g) c"
    if "\<not> (0 \<le> c \<and> c \<le> 4)"
    using that pl [of c] placedOf_other [OF hok, of c] by (simp add: cnt)
  from hok have tot: "getTotalTilesPlaced h
        = placedOf h 0 + placedOf h 1 + placedOf h 2 + placedOf h 3 + placedOf h 4"
    and cap: "getTotalTilesPlaced h \<le> 4 * int (length (factories h))"
    using total_by_colour [of "factories h"]
    by (simp_all add: handlerOK_def getTotalTilesPlaced_sum placedOf_def)
  from bag bh have le: "int (count_list (ourBag g) 0) \<le> cnt (tileCounts b) 0 + placedOf h 0"
      "int (count_list (ourBag g) 1) \<le> cnt (tileCounts b) 1 + placedOf h 1"
      "int (count_list (ourBag g) 2) \<le> cnt (tileCounts b) 2 + placedOf h 2"
      "int (count_list (ourBag g) 3) \<le> cnt (tileCounts b) 3 + placedOf h 3"
      "int (count_list (ourBag g) 4) \<le> cnt (tileCounts b) 4 + placedOf h 4"
    and sum: "supplyTotal (tileCounts b) + tilesPlaced b = colourTiles (ourBag g)"
    by (simp_all add: bagOK_def)
  from start_enabled [OF w st start]
  have en: "supplyTotal (tileCounts b) = 0 \<or> tilesPlaced b = tilesNeeded b" .
  from len need nil have nd: "tilesNeeded b = 4 * int (length (factories h))
      \<or> (length (factories h) = 0 \<and> tilesPlaced b = 0)"
    by (cases "factory (gamestate g)") auto
  have all: "int (count_list (ourBag g) 0 - count_list ?placed 0) = cnt (tileCounts b) 0
     \<and> int (count_list (ourBag g) 1 - count_list ?placed 1) = cnt (tileCounts b) 1
     \<and> int (count_list (ourBag g) 2 - count_list ?placed 2) = cnt (tileCounts b) 2
     \<and> int (count_list (ourBag g) 3 - count_list ?placed 3) = cnt (tileCounts b) 3
     \<and> int (count_list (ourBag g) 4 - count_list ?placed 4) = cnt (tileCounts b) 4"
    using le sum en tot cap nd
    by (intro reconcile_arith [where tp = "tilesPlaced b" and needed = "tilesNeeded b"
          and n = "length (factories h)"])
       (simp_all add: pl cnt_nonneg [OF w] supplyTotal_def colourTiles_def add.assoc)
  show "int (count_list (tilebag (gamestate (applyManualDistribution g))) c) = cnt (tileCounts b) c"
    if "0 \<le> c \<and> c \<le> 4"
  proof -
    from that consider "c = 0" | "c = 1" | "c = 2" | "c = 3" | "c = 4" by arith
    then show ?thesis using all by cases (simp_all add: cnt)
  qed
qed

lemma cnt_other: "wfCounts counts \<Longrightarrow> \<not> (0 \<le> c \<and> c \<le> 4) \<Longrightarrow> cnt counts c = 0"
  by (erule wfCountsE) (auto simp: cnt_def)

lemma count_not_colour: "list_all isColour xs \<Longrightarrow> \<not> (0 \<le> c \<and> c \<le> 4) \<Longrightarrow> count_list xs c = 0"
  by (simp add: isColour_fun count_other)

section \<open>Conservation of tiles (claim C1)\<close>

text \<open>
  Claim C1 says that the sum of the counts, the tiles on the factories and the length of
  the discard pile is one fixed number under every sequence of operations, within and
  across rounds. It is not. The start button hands the placed tiles to the engine and
  takes them out of the bag, and no operation ever adds to the discard pile, so the next
  phase starts with a smaller sum: 10 in the first phase of the small game, 2 in the
  second. Inside a phase the sum also moves when a drop carries a colour whose count is
  0, a payload the bag's own drag source never produces: the factory takes the tile and
  no count changes, 10 becomes 11.
\<close>

theorem conservation_counterexample:
  "accounted (enterManualDistributionPhase (- 1) gameA) = Some (Num 10)
   \<and> accounted (enterManualDistributionPhase (- 1)
                  (run (fillA @ [ClickStart]) (enterManualDistributionPhase (- 1) gameA)))
       = Some (Num 2)
   \<and> accounted (run [DragFromBag 3 1, DragFromBag 3 1, Drop (Some ''3'') 2]
                  (enterManualDistributionPhase (- 1) gameA))
       = Some (Num 11)"
  by code_simp

text \<open>
  Claim C1, amended. Within one phase, under every sequence of drags from the bag,
  clicks on slots and drops that are rejected or name a colour whose count is positive,
  the sum of the counts, the tiles on all factories and the length of the discard pile
  stays what it was when the phase was entered: the number of tiles of colour 0 to 4 in
  the bag plus the length of the discard pile.
\<close>

theorem tiles_conserved_within_phase:
  "suppliedRun (enterManualDistributionPhase Null g) evs \<Longrightarrow>
   accounted (run evs (enterManualDistributionPhase Null g))
     = accounted (enterManualDistributionPhase Null g)
   \<and> accounted (enterManualDistributionPhase Null g)
       = Some (Num (colourTiles (ourBag (enterManualDistributionPhase Null g))
                    + int (length (discardedTiles (enterManualDistributionPhase Null g)))))"
  by (simp add: accounted_supplied phaseOK_enter accounted_enter)

theorem tiles_conserved_within_phase_witness:
  "suppliedRun (enterManualDistributionPhase (- 1) gameA)
     (fillA @ [ClickSlot 1 0, Drop (Some ''1'') 1, Drop (Some ''red'') 2, DragFromBag 1 1])
   \<and> accounted (run (fillA @ [ClickSlot 1 0, Drop (Some ''1'') 1, Drop (Some ''red'') 2,
                             DragFromBag 1 1])
                  (enterManualDistributionPhase (- 1) gameA))
       = Some (Num 10)"
proof -
  have a: "suppliedRun (enterManualDistributionPhase (- 1) gameA)
     (fillA @ [ClickSlot 1 0, Drop (Some ''1'') 1, Drop (Some ''red'') 2, DragFromBag 1 1])"
    by code_simp
  have b: "accounted (enterManualDistributionPhase (- 1) gameA) = Some (Num 10)"
    by code_simp
  from tiles_conserved_within_phase [OF a] a b show ?thesis by simp
qed

section \<open>Reconciliation with the engine (claim C2)\<close>

text \<open>
  \<open>applyManualDistribution\<close> is private; it runs only as the listener of the start
  button, and a disabled button delivers no click. The states in which it runs are
  therefore the states of a phase in which the button is enabled. The events of a phase
  are drags from the bag, drops with any payload, clicks on slots and clicks on the start
  button.

  Claim C2. In every such state, applying the distribution writes, for every factory id
  of the handler, that factory's tiles into the engine's factory of the same index; the
  configuration lists the factories by ascending id, which are \<open>1..n\<close>; the engine's
  factory list keeps its length and its centre at index 0; the engine's bag then holds,
  for every colour, exactly as many tiles as the bag view counts at that moment; and the
  legal moves are those computed from the factories just written, \<open>getMoves\<close> being the
  last thing done to the engine.
\<close>

theorem apply_reconciles:
  assumes "g = run evs (enterManualDistributionPhase Null g0)"
    and "bagView g = Some b" and "factoryDropHandler g = Some h"
    and "startRoundBtn b = Some False"
  shows "clickStart g = applyManualDistribution g
    \<and> getFactoryConfiguration h = map (\<lambda>kv. tiles (snd kv)) (factories h)
    \<and> map fst (factories h) = map (\<lambda>i. int i + 1) [0..<length (factories h)]
    \<and> (\<forall>fid fac. map_of (factories h) fid = Some fac \<longrightarrow>
          factory (gamestate (applyManualDistribution g)) ! nat fid = tiles fac)
    \<and> length (factory (gamestate (applyManualDistribution g))) = length (factory (gamestate g))
    \<and> (factory (gamestate g) \<noteq> [] \<longrightarrow>
          factory (gamestate (applyManualDistribution g)) ! 0 = factory (gamestate g) ! 0)
    \<and> (\<forall>c. 0 \<le> c \<and> c \<le> 4 \<longrightarrow>
          int (count_list (tilebag (gamestate (applyManualDistribution g))) c) = cnt (tileCounts b) c)
    \<and> (list_all isColour (ourBag g) \<longrightarrow>
          (\<forall>c. int (count_list (tilebag (gamestate (applyManualDistribution g))) c)
                 = cnt (tileCounts b) c))
    \<and> movesComputedFrom (gamestate (applyManualDistribution g))
        = factory (gamestate (applyManualDistribution g))"
proof -
  from assms(1,2) have ok: "phaseOK g" and bag: "bagOK g"
    by (simp_all add: reachable_phaseOK)
  from ok assms(2,3) have w: "wfCounts (tileCounts b)" and cb: "onDistributionComplete b"
    and hok: "handlerOK h"
    and len: "length (factories h) = length (factory (gamestate g)) - 1"
    by (auto elim!: phaseOK_E)
  note fs = apply_factories [OF assms(3) hok len]
  note bg = apply_bag [OF ok bag assms(2,3,4)]
  from assms(2,4) cb have "clickStart g = applyManualDistribution g"
    by (simp add: clickStart_def)
  moreover from hok have "getFactoryConfiguration h = map (\<lambda>kv. tiles (snd kv)) (factories h)"
    by (rule getFactoryConfiguration_ordered)
  moreover from hok have "map fst (factories h) = map (\<lambda>i. int i + 1) [0..<length (factories h)]"
    by (simp add: handlerOK_def)
  moreover have "\<forall>fid fac. map_of (factories h) fid = Some fac \<longrightarrow>
          factory (gamestate (applyManualDistribution g)) ! nat fid = tiles fac"
    using fs(3) by blast
  moreover have "\<forall>c. 0 \<le> c \<and> c \<le> 4 \<longrightarrow>
          int (count_list (tilebag (gamestate (applyManualDistribution g))) c) = cnt (tileCounts b) c"
    using bg(1) by blast
  moreover have "list_all isColour (ourBag g) \<longrightarrow>
          (\<forall>c. int (count_list (tilebag (gamestate (applyManualDistribution g))) c)
                 = cnt (tileCounts b) c)"
  proof (intro impI allI)
    fix c
    assume col: "list_all isColour (ourBag g)"
    show "int (count_list (tilebag (gamestate (applyManualDistribution g))) c) = cnt (tileCounts b) c"
    proof (cases "0 \<le> c \<and> c \<le> 4")
      case True
      then show ?thesis by (rule bg(1))
    next
      case False
      with bg(2) [OF False] col w show ?thesis
        by (simp add: count_not_colour cnt_other)
    qed
  qed
  ultimately show ?thesis using fs(1,2,4) by blast
qed

theorem apply_reconciles_witness:
  "bagView (run fillA (enterManualDistributionPhase (- 1) gameA)) = Some bagViewA
   \<and> factoryDropHandler (run fillA (enterManualDistributionPhase (- 1) gameA)) = Some handlerA
   \<and> startRoundBtn bagViewA = Some False
   \<and> list_all isColour (ourBag (run fillA (enterManualDistributionPhase (- 1) gameA)))
   \<and> factory (gamestate (run fillA (enterManualDistributionPhase (- 1) gameA))) = [[], [], []]
   \<and> factory (gamestate (applyManualDistribution (run fillA (enterManualDistributionPhase (- 1) gameA))))
       = [[], [3, 4, 0, 1], [2, 3, 4, 0]]
   \<and> tilebag (gamestate (applyManualDistribution (run fillA (enterManualDistributionPhase (- 1) gameA))))
       = [1, 2]
   \<and> map_of (factories handlerA) 2 = Some \<lparr>factoryId = 2, tiles = [2, 3, 4, 0]\<rparr>
   \<and> factory (gamestate (applyManualDistribution (run fillA (enterManualDistributionPhase (- 1) gameA))))
       ! nat 2 = [2, 3, 4, 0]
   \<and> cnt (tileCounts bagViewA) 1 = 1
   \<and> int (count_list (tilebag (gamestate (applyManualDistribution
                          (run fillA (enterManualDistributionPhase (- 1) gameA))))) 1) = 1"
proof -
  let ?g = "run fillA (enterManualDistributionPhase (- 1) gameA)"
  have a: "bagView ?g = Some bagViewA" by code_simp
  have b: "factoryDropHandler ?g = Some handlerA" by code_simp
  have c: "startRoundBtn bagViewA = Some False" by (simp add: bagViewA_def)
  have d: "map_of (factories handlerA) 2 = Some \<lparr>factoryId = 2, tiles = [2, 3, 4, 0]\<rparr>"
    by (simp add: handlerA_def)
  have e: "cnt (tileCounts bagViewA) 1 = 1" by (simp add: bagViewA_def cnt_def)
  have k: "list_all isColour (ourBag ?g)" by code_simp
  have l: "factory (gamestate ?g) = [[], [], []]" by code_simp
  have m: "factory (gamestate (applyManualDistribution ?g)) = [[], [3, 4, 0, 1], [2, 3, 4, 0]]"
    by code_simp
  have n: "tilebag (gamestate (applyManualDistribution ?g)) = [1, 2]" by code_simp
  note R = apply_reconciles [OF refl a b c]
  from R [THEN conjunct2, THEN conjunct2, THEN conjunct2, THEN conjunct1] d
  have f: "factory (gamestate (applyManualDistribution ?g)) ! nat 2
             = tiles \<lparr>factoryId = 2, tiles = [2, 3, 4, 0]\<rparr>"
    by blast
  from R [THEN conjunct2, THEN conjunct2, THEN conjunct2, THEN conjunct2, THEN conjunct2,
          THEN conjunct2, THEN conjunct2, THEN conjunct1] k
  have "int (count_list (tilebag (gamestate (applyManualDistribution ?g))) 1)
          = cnt (tileCounts bagViewA) 1"
    by blast
  with a b c d e f k l m n show ?thesis by simp
qed

text \<open>
  The button matters. After a drop of a colour whose count is 0 and a click that removes
  a tile of that colour, the counts hold one tile more than the bag can account for; the
  button is then disabled, and applying the distribution all the same would leave the
  engine's bag without the tile of colour 3 that the counts show.
\<close>

lemma apply_with_disabled_button:
  "map_option startRoundBtn
     (bagView (run [DragFromBag 3 1, DragFromBag 3 1, Drop (Some ''3'') 2, ClickSlot 2 0]
                 (enterManualDistributionPhase (- 1) gameA))) = Some (Some True)
   \<and> map_option (\<lambda>b. cnt (tileCounts b) 3)
       (bagView (run [DragFromBag 3 1, DragFromBag 3 1, Drop (Some ''3'') 2, ClickSlot 2 0]
                   (enterManualDistributionPhase (- 1) gameA))) = Some 1
   \<and> count_list (tilebag (gamestate (applyManualDistribution
         (run [DragFromBag 3 1, DragFromBag 3 1, Drop (Some ''3'') 2, ClickSlot 2 0]
            (enterManualDistributionPhase (- 1) gameA))))) 3 = 0"
  by code_simp

section \<open>The order of a placement attempt (claim C3)\<close>




section \<open>Completion predicate (claim C4)\<close>

text \<open>
  Claim C4. \<open>isComplete(totalAvailableTiles)\<close> is true exactly when the number of tiles
  placed on all factories is at least the minimum of \<open>totalAvailableTiles\<close> and four times
  the number of factories; with five factories and 18 tiles available it is true exactly
  from 18 placed tiles on, not from 20.
\<close>

theorem isComplete_iff_min:
  "(isComplete totalAvail h \<longleftrightarrow>
      min totalAvail (int (length (factories h)) * 4)
        \<le> (\<Sum>kv\<leftarrow>factories h. int (length (tiles (snd kv)))))
   \<and> (length (factories h) = 5 \<longrightarrow>
        (isComplete 18 h \<longleftrightarrow> 18 \<le> (\<Sum>kv\<leftarrow>factories h. int (length (tiles (snd kv))))))"
  by (simp add: isComplete_def foldl_add_sum_list Let_def)

theorem isComplete_iff_min_witness:
  "length (factories handler18) = 5 \<and> isComplete 18 handler18
   \<and> (\<Sum>kv\<leftarrow>factories handler18. int (length (tiles (snd kv)))) = 18"
  using isComplete_iff_min [of 18 handler18] by (simp add: handler18_def)

text \<open>
  \<open>isComplete\<close> has no caller in the sources; the start button is governed by
  \<open>updateStatus\<close>, which enables it when the tally has reached the minimum of
  \<open>tilesNeeded\<close> and all tiles of the pool, or when no tile is left. In the late round
  (18 tiles, 20 needed) the button is disabled after 17 drags and enabled after 18, where
  \<open>isComplete(18)\<close> agrees.
\<close>

lemma start_button_iff:
  "wfCounts (tileCounts b) \<Longrightarrow> startRoundBtn b \<noteq> None \<Longrightarrow>
   startRoundBtn (updateStatus b)
     = Some (\<not> (min (tilesNeeded b) (supplyTotal (tileCounts b) + tilesPlaced b) = tilesPlaced b
                \<or> supplyTotal (tileCounts b) = 0))"
  by (auto simp: updateStatus_def Let_def totalAvailable_wf)

lemma late_round_button:
  "map_option startRoundBtn (bagView (run fillLate (enterManualDistributionPhase (- 1) gameLate)))
     = Some (Some False)
   \<and> map_option startRoundBtn
       (bagView (run (butlast fillLate) (enterManualDistributionPhase (- 1) gameLate)))
     = Some (Some True)
   \<and> map_option (isComplete 18)
       (factoryDropHandler (run fillLate (enterManualDistributionPhase (- 1) gameLate)))
     = Some True
   \<and> map_option (isComplete 18)
       (factoryDropHandler (run (butlast fillLate) (enterManualDistributionPhase (- 1) gameLate)))
     = Some False"
  by code_simp

section \<open>Placing and removing again (claim C5)\<close>

text \<open>
  Claim C5. In every state a phase can reach, for every factory that has room and every
  colour whose count is positive, placing a tile of that colour on the factory (by a drag
  from the bag, or by any drop whose payload parses to the colour) puts it in the first
  free slot, and a click on that slot right afterwards gives back exactly the state
  before: counts, tally, button and every factory's tiles.
\<close>

theorem place_then_remove_restores:
  assumes "g = run evs (enterManualDistributionPhase Null g0)"
    and "bagView g = Some b" and "factoryDropHandler g = Some h"
    and "jsgt0 (map_of (tileCounts b) c)"
    and "map_of (factories h) fid = Some fac" and "length (tiles fac) < 4"
  shows "(\<exists>h'. factoryDropHandler (dragFromBag c fid g) = Some h' \<and>
              map_of (factories h') fid = Some (fac\<lparr>tiles := tiles fac @ [c]\<rparr>))
         \<and> clickSlot fid (length (tiles fac)) (dragFromBag c fid g) = g
         \<and> (\<forall>s. s \<noteq> [] \<and> parseInt s = Some c \<longrightarrow>
               clickSlot fid (length (tiles fac)) (dropOn (Some s) fid g) = g)"
proof -
  from assms(1,2) have ok: "phaseOK g" by (simp add: reachable_phaseOK)
  with assms(2,3) have w: "wfCounts (tileCounts b)" by (auto elim: phaseOK_E)
  from w assms(4) have c: "0 \<le> c" "c \<le> 4" "0 < cnt (tileCounts b) c"
    by (simp_all add: jsgt0_valid)
  note drag = dragFromBag_placed [OF ok assms(2,3) c assms(5,6)]
  note restore = clickSlot_last [OF ok assms(2,3) c assms(5,6)]
  have "\<exists>h'. factoryDropHandler (dragFromBag c fid g) = Some h' \<and>
              map_of (factories h') fid = Some (fac\<lparr>tiles := tiles fac @ [c]\<rparr>)"
    by (simp add: drag withTiles_lookup)
  moreover have "clickSlot fid (length (tiles fac)) (dragFromBag c fid g) = g"
    by (simp only: drag restore)
  moreover have "\<forall>s. s \<noteq> [] \<and> parseInt s = Some c \<longrightarrow>
               clickSlot fid (length (tiles fac)) (dropOn (Some s) fid g) = g"
    using dropOn_placed [OF ok assms(2,3) _ _ c(1,2) assms(5,6)] restore by simp
  ultimately show ?thesis by blast
qed

theorem place_then_remove_restores_witness:
  "jsgt0 (map_of [(0, Num 2), (1, Num 2), (2, Num 2), (3, Num 1), (4, Num 2)] 0)
   \<and> clickSlot 1 1 (dragFromBag 0 1 (run [DragFromBag 3 1] (enterManualDistributionPhase (- 1) gameA)))
       = run [DragFromBag 3 1] (enterManualDistributionPhase (- 1) gameA)
   \<and> parseInt '' 0 '' = Some 0
   \<and> clickSlot 1 1 (dropOn (Some '' 0 '') 1 (run [DragFromBag 3 1] (enterManualDistributionPhase (- 1) gameA)))
       = run [DragFromBag 3 1] (enterManualDistributionPhase (- 1) gameA)"
proof -
  let ?g = "run [DragFromBag 3 1] (enterManualDistributionPhase (- 1) gameA)"
  let ?b = "\<lparr>tileCounts = [(0, Num 2), (1, Num 2), (2, Num 2), (3, Num 1), (4, Num 2)],
             tilesPlaced = 1, tilesNeeded = 8, startRoundBtn = Some True,
             onDistributionComplete = True\<rparr>"
  let ?h = "\<lparr>factories = [(1, \<lparr>factoryId = 1, tiles = [3]\<rparr>), (2, \<lparr>factoryId = 2, tiles = []\<rparr>)],
             onTileDropped = True, onTileRemoved = True, enabled = True\<rparr>"
  have b: "bagView ?g = Some ?b" by code_simp
  have h: "factoryDropHandler ?g = Some ?h" by code_simp
  have p: "jsgt0 (map_of (tileCounts ?b) 0)" by simp
  have f: "map_of (factories ?h) 1 = Some \<lparr>factoryId = 1, tiles = [3]\<rparr>" by simp
  have r: "length (tiles \<lparr>factoryId = 1, tiles = [3]\<rparr>) < 4" by simp
  have q: "parseInt '' 0 '' = Some 0" by (simp add: parseInt_eval)
  from place_then_remove_restores [OF refl b h p f r] p q show ?thesis by simp
qed

section \<open>Refill from the discard pile (claim C6)\<close>




section \<open>Rejections by the supply and by a full factory (claim C7)\<close>

text \<open>
  Claim C7 says that \<open>take\<close> returns true when it decrements and false when it does
  not. \<open>tilePlaced\<close>, which is that operation, is declared \<open>void\<close>: a call evaluates to
  \<open>undefined\<close> in both cases, and its caller cannot tell them apart.
\<close>

theorem take_returns_no_boolean_counterexample:
  "jsgt0 (map_of (tileCounts bagViewA) 1) \<and> fst (tilePlaced 1 bagViewA) \<noteq> Boolean True
   \<and> \<not> jsgt0 (map_of (tileCounts bagViewA) 0) \<and> fst (tilePlaced 0 bagViewA) \<noteq> Boolean False"
  by code_simp

text \<open>
  Claim C7, amended. \<open>tilePlaced(color)\<close> returns no value. When the count of the
  colour is a positive number it lowers that count by 1, leaves every other count as it
  is and raises \<open>tilesPlaced\<close> by 1; otherwise it leaves the bag view unchanged.
  \<open>addTileToFactory\<close> on a factory that holds 4 tiles returns false and leaves the
  handler, so that factory's tiles, unchanged.
\<close>

theorem take_and_place_rejections:
  "(map_of (tileCounts b) c = Some (Num n) \<and> 0 < n \<longrightarrow>
      map_of (tileCounts (snd (tilePlaced c b))) c = Some (Num (n - 1)) \<and>
      (\<forall>c'. c' \<noteq> c \<longrightarrow> map_of (tileCounts (snd (tilePlaced c b))) c' = map_of (tileCounts b) c') \<and>
      tilesPlaced (snd (tilePlaced c b)) = tilesPlaced b + 1)
   \<and> (\<not> jsgt0 (map_of (tileCounts b) c) \<longrightarrow> snd (tilePlaced c b) = b)
   \<and> fst (tilePlaced c b) = Undefined
   \<and> (map_of (factories h) fid = Some fac \<and> length (tiles fac) = 4 \<longrightarrow>
        addTileToFactory fid color h = (False, h))"
  by (simp add: tilePlaced_def update_conv' addTileToFactory_def)

theorem take_and_place_rejections_witness:
  "map_of (tileCounts bagViewA) 1 = Some (Num 1)
   \<and> map_of (tileCounts (snd (tilePlaced 1 bagViewA))) 1 = Some (Num 0)
   \<and> \<not> jsgt0 (map_of (tileCounts bagViewA) 0) \<and> snd (tilePlaced 0 bagViewA) = bagViewA
   \<and> map_of (factories handlerA) 1 = Some \<lparr>factoryId = 1, tiles = [3, 4, 0, 1]\<rparr>
   \<and> addTileToFactory 1 2 handlerA = (False, handlerA)"
proof -
  have a: "map_of (tileCounts bagViewA) 1 = Some (Num 1)" by (simp add: bagViewA_def)
  have b: "\<not> jsgt0 (map_of (tileCounts bagViewA) 0)" by (simp add: bagViewA_def)
  have c: "map_of (factories handlerA) 1 = Some \<lparr>factoryId = 1, tiles = [3, 4, 0, 1]\<rparr>"
    by (simp add: handlerA_def)
  from take_and_place_rejections [of bagViewA 1 1 handlerA 1 "\<lparr>factoryId = 1, tiles = [3, 4, 0, 1]\<rparr>" 2]
    take_and_place_rejections [of bagViewA 0 0 handlerA 1 "\<lparr>factoryId = 1, tiles = [3, 4, 0, 1]\<rparr>" 2]
    a b c
  show ?thesis by simp
qed

section \<open>Capacity of a factory (claim C8)\<close>

text \<open>
  Claim C8. Whatever events a phase receives after it is entered (drags from the bag,
  drops with any payload, clicks on slots, the start button), every factory of the
  handler holds between 0 and 4 tiles.
\<close>

theorem factory_capacity:
  "factoryDropHandler (run evs (enterManualDistributionPhase Null g)) = Some h \<Longrightarrow>
   (fid, fac) \<in> set (factories h) \<Longrightarrow> 0 \<le> length (tiles fac) \<and> length (tiles fac) \<le> 4"
proof -
  assume h: "factoryDropHandler (run evs (enterManualDistributionPhase Null g)) = Some h"
    and m: "(fid, fac) \<in> set (factories h)"
  from h have "phaseOK (run evs (enterManualDistributionPhase Null g))"
    by (simp add: reachable_handler_phaseOK)
  with h have "handlerOK h" by (auto elim: phaseOK_E)
  with m show ?thesis by (auto simp: handlerOK_def list_all_iff)
qed

text \<open>Both factories are full after \<open>fillA\<close>; a ninth drag onto factory 1 changes nothing.\<close>

theorem factory_capacity_witness:
  "factoryDropHandler (run (fillA @ [DragFromBag 1 1]) (enterManualDistributionPhase (- 1) gameA))
     = Some handlerA
   \<and> (1, \<lparr>factoryId = 1, tiles = [3, 4, 0, 1]\<rparr>) \<in> set (factories handlerA)
   \<and> length (tiles \<lparr>factoryId = 1, tiles = [3, 4, 0, 1]\<rparr>) \<le> 4"
proof -
  have a: "factoryDropHandler
             (run (fillA @ [DragFromBag 1 1]) (enterManualDistributionPhase (- 1) gameA))
           = Some handlerA"
    by code_simp
  have b: "(1, \<lparr>factoryId = 1, tiles = [3, 4, 0, 1]\<rparr>) \<in> set (factories handlerA)"
    by (simp add: handlerA_def)
  from factory_capacity [OF a b] a b show ?thesis by simp
qed

section \<open>Initialisation of the supply (claim C9)\<close>




section \<open>Drops with an unusable payload (claim C10)\<close>

text \<open>
  Claim C10. A drop whose payload is absent, empty, or does not parse to a colour 0 to 4
  (with \<open>NaN\<close> and out-of-range values) leaves the handler as it is, so every factory's
  tile list, and calls no callback; the controller's state, with all supply counts, is
  unchanged.
\<close>

theorem rejected_drop_is_noop:
  "rejectedPayload p \<Longrightarrow> handleDrop p fid h = (h, None) \<and> dropOn p fid g = g"
  by (cases "factoryDropHandler g") (simp_all add: dropOn_def handleDrop_rejected)

theorem rejected_drop_is_noop_witness:
  "rejectedPayload (Some ''7'') \<and> rejectedPayload (Some ''red'') \<and> rejectedPayload None
   \<and> rejectedPayload (Some []) \<and> rejectedPayload (Some ''-1'')
   \<and> handleDrop (Some ''7'') 1 handlerA = (handlerA, None)
   \<and> dropOn (Some ''7'') 1 (enterManualDistributionPhase (- 1) gameA)
       = enterManualDistributionPhase (- 1) gameA"
proof -
  have a: "rejectedPayload (Some ''7'')" by (simp add: rejectedPayload_def parseInt_eval)
  have b: "rejectedPayload (Some ''red'')" by (simp add: rejectedPayload_def parseInt_eval)
  have c: "rejectedPayload None" by (simp add: rejectedPayload_def)
  have d: "rejectedPayload (Some [])" by (simp add: rejectedPayload_def)
  have e: "rejectedPayload (Some ''-1'')" by (simp add: rejectedPayload_def parseInt_eval)
  from rejected_drop_is_noop [OF a, of 1 handlerA "enterManualDistributionPhase (- 1) gameA"] a b c d e
  show ?thesis by simp
qed

end
